theory Spec2Isabelle
  imports Main "HOL-Library.Sublist" "HOL-Library.Char_ord" "HOL-Library.List_Lexorder"
begin

section \<open>Text primitives of the interviewer script\<close>

text \<open>
  The script \<^verbatim>\<open>wai.py\<close> keeps every question as a block of \<^verbatim>\<open>Key: value\<close> lines
  inside a flat text document and edits it with regular expressions.  A Python string
  is modelled as a \<^typ>\<open>string\<close>; one \<^typ>\<open>char\<close> stands for one code point (the
  range 0..255, which holds ASCII and the two characters U+00A0 and U+00C2 that the
  script treats specially).  Exceptions are values of \<open>py_error\<close>.
\<close>

datatype py_error =
    WAIError string
  | ValueError
  | KeyError
  | TemplateError

definition ebind :: "py_error + 'a \<Rightarrow> ('a \<Rightarrow> py_error + 'b) \<Rightarrow> py_error + 'b" where
  "ebind m f = (case m of Inl e \<Rightarrow> Inl e | Inr x \<Rightarrow> f x)"

definition nl :: char where
  "nl = CHR 0x0A"

definition bslash :: char where
  "bslash = CHR 0x5C"

text \<open>\<^verbatim>\<open>str.isspace\<close> on one code point below 256; it is also the class \<^verbatim>\<open>\s\<close>
  of \<^verbatim>\<open>re\<close> on \<^verbatim>\<open>str\<close> patterns.\<close>

definition isspace :: "char \<Rightarrow> bool" where
  "isspace c \<longleftrightarrow> c \<in> set [CHR 0x09, CHR 0x0A, CHR 0x0B, CHR 0x0C, CHR 0x0D,
     CHR 0x1C, CHR 0x1D, CHR 0x1E, CHR 0x1F, CHR 0x20, CHR 0x85, CHR 0xA0]"

definition lstrip :: "string \<Rightarrow> string" where
  "lstrip s = dropWhile isspace s"

definition rstrip :: "string \<Rightarrow> string" where
  "rstrip s = rev (dropWhile isspace (rev s))"

definition strip :: "string \<Rightarrow> string" where
  "strip s = rstrip (lstrip s)"

text \<open>\<^verbatim>\<open>old in s\<close> and \<^verbatim>\<open>s.find(old) != -1\<close>.\<close>

fun contains :: "string \<Rightarrow> string \<Rightarrow> bool" where
  "contains old [] = (old = [])"
| "contains old (c # cs) = (prefix old (c # cs) \<or> contains old cs)"

text \<open>\<^verbatim>\<open>s.replace(old, new)\<close>: every occurrence, left to right, not overlapping.\<close>

function replace_scan :: "string \<Rightarrow> string \<Rightarrow> string \<Rightarrow> string" where
  "replace_scan old new s =
     (if s = [] \<or> old = [] then s
      else if prefix old s then new @ replace_scan old new (drop (length old) s)
      else hd s # replace_scan old new (tl s))"
  by pat_completeness auto
termination
  by (relation "measure (\<lambda>(old, new, s). length s)") auto

definition py_replace :: "string \<Rightarrow> string \<Rightarrow> string \<Rightarrow> string" where
  "py_replace s old new =
     (if old = [] then new @ concat (map (\<lambda>c. c # new) s) else replace_scan old new s)"

text \<open>\<^verbatim>\<open>s.count(c)\<close> for a one-character \<^verbatim>\<open>c\<close>.\<close>

definition count_char :: "char \<Rightarrow> string \<Rightarrow> nat" where
  "count_char c s = length (filter (\<lambda>x. x = c) s)"

text \<open>\<^verbatim>\<open>s.split(sep, 1)\<close> for a non-empty separator: the text before the first
  occurrence and the text after it, or nothing when there is none.\<close>

fun split_once :: "string \<Rightarrow> string \<Rightarrow> (string \<times> string) option" where
  "split_once sep [] = None"
| "split_once sep (c # cs) =
     (if prefix sep (c # cs) then Some ([], drop (length sep) (c # cs))
      else map_option (\<lambda>(a, b). (c # a, b)) (split_once sep cs))"

text \<open>The first element of \<^verbatim>\<open>s.splitlines()\<close> for a non-empty \<^verbatim>\<open>s\<close>: the text before
  the first line boundary.\<close>

definition is_linebreak :: "char \<Rightarrow> bool" where
  "is_linebreak c \<longleftrightarrow> c \<in> set [CHR 0x0A, CHR 0x0B, CHR 0x0C, CHR 0x0D,
     CHR 0x1C, CHR 0x1D, CHR 0x1E, CHR 0x85]"

definition first_line :: "string \<Rightarrow> string" where
  "first_line s = takeWhile (\<lambda>c. \<not> is_linebreak c) s"

section \<open>Replacement templates of \<^verbatim>\<open>re.sub\<close>\<close>

text \<open>
  \<^verbatim>\<open>re.sub\<close> with a string replacement compiles the string as a template
  (\<^verbatim>\<open>re._parser.parse_template\<close>, CPython 3.12): a backslash starts an escape, and
  a replacement without a backslash is used as it is.  The patterns that take a computed
  replacement here have no group, so the only group a template may refer to is the whole
  match, \<^verbatim>\<open>\g<0>\<close>; every other reference raises.  \<open>TemplateError\<close> stands
  for the exception of the template compiler (\<^verbatim>\<open>re.error\<close>, or \<^verbatim>\<open>IndexError\<close>
  for an unknown group name); the script catches neither.
\<close>

datatype piece = Lit char | Whole

definition is_digit :: "char \<Rightarrow> bool" where
  "is_digit c \<longleftrightarrow> CHR ''0'' \<le> c \<and> c \<le> CHR ''9''"

definition is_octdigit :: "char \<Rightarrow> bool" where
  "is_octdigit c \<longleftrightarrow> CHR ''0'' \<le> c \<and> c \<le> CHR ''7''"

definition is_ascii_letter :: "char \<Rightarrow> bool" where
  "is_ascii_letter c \<longleftrightarrow> (CHR ''a'' \<le> c \<and> c \<le> CHR ''z'') \<or> (CHR ''A'' \<le> c \<and> c \<le> CHR ''Z'')"

definition octal_value :: "string \<Rightarrow> nat" where
  "octal_value ds = foldl (\<lambda>v d. 8 * v + (of_char d - 48)) 0 ds"

definition escape_char :: "char \<Rightarrow> char option" where
  "escape_char c =
     (if c = CHR ''a'' then Some (CHR 0x07)
      else if c = CHR ''b'' then Some (CHR 0x08)
      else if c = CHR ''f'' then Some (CHR 0x0C)
      else if c = CHR ''n'' then Some (CHR 0x0A)
      else if c = CHR ''r'' then Some (CHR 0x0D)
      else if c = CHR ''t'' then Some (CHR 0x09)
      else if c = CHR ''v'' then Some (CHR 0x0B)
      else if c = bslash then Some bslash
      else None)"

definition cons_piece :: "piece \<Rightarrow> py_error + piece list \<Rightarrow> py_error + piece list" where
  "cons_piece p r = (case r of Inl e \<Rightarrow> Inl e | Inr ps \<Rightarrow> Inr (p # ps))"

function parse_template :: "string \<Rightarrow> py_error + piece list" where
  "parse_template [] = Inr []"
| "parse_template (c # cs) =
     (if c \<noteq> bslash then cons_piece (Lit c) (parse_template cs)
      else case cs of
        [] \<Rightarrow> Inl TemplateError
      | e # rest \<Rightarrow>
          if e = CHR ''g'' then
            (case rest of
               [] \<Rightarrow> Inl TemplateError
             | lt # body \<Rightarrow>
                 if lt \<noteq> CHR ''<'' then Inl TemplateError
                 else let name = takeWhile (\<lambda>x. x \<noteq> CHR ''>'') body in
                   if length name = length body \<or> name = [] then Inl TemplateError
                   else if list_all is_digit name then
                     (if list_all (\<lambda>x. x = CHR ''0'') name
                      then cons_piece Whole (parse_template (drop (Suc (length name)) body))
                      else Inl TemplateError)
                   else Inl TemplateError)
          else if e = CHR ''0'' then
            (let ds = takeWhile is_octdigit (take 2 rest) in
               cons_piece (Lit (char_of (octal_value ds mod 256)))
                 (parse_template (drop (length ds) rest)))
          else if is_digit e then
            (case rest of
               d1 # d2 # rest' \<Rightarrow>
                 if is_octdigit e \<and> is_octdigit d1 \<and> is_octdigit d2 then
                   (if octal_value [e, d1, d2] > 255 then Inl TemplateError
                    else cons_piece (Lit (char_of (octal_value [e, d1, d2])))
                           (parse_template rest'))
                 else Inl TemplateError
             | _ \<Rightarrow> Inl TemplateError)
          else
            (case escape_char e of
               Some x \<Rightarrow> cons_piece (Lit x) (parse_template rest)
             | None \<Rightarrow>
                 if is_ascii_letter e then Inl TemplateError
                 else cons_piece (Lit bslash) (cons_piece (Lit e) (parse_template rest))))"
  by pat_completeness auto
termination
  by (relation "measure length") auto

fun expand_piece :: "string \<Rightarrow> piece \<Rightarrow> string" where
  "expand_piece m (Lit c) = [c]"
| "expand_piece m Whole = m"

definition expand :: "piece list \<Rightarrow> string \<Rightarrow> string" where
  "expand tpl m = concat (map (expand_piece m) tpl)"

section \<open>Field codec\<close>

text \<open>
  \<^verbatim>\<open>re.search(rf"^{re.escape(field)}:[ \t]*(.*)$", block, re.MULTILINE)\<close> scans the
  block from the left; \<^verbatim>\<open>^\<close> holds at the start and after every newline.  The scan
  returns the text that follows the first \<^verbatim>\<open>field:\<close> found at a line start.
\<close>

fun search_field :: "string \<Rightarrow> bool \<Rightarrow> string \<Rightarrow> string option" where
  "search_field pat bol [] = None"
| "search_field pat bol (c # cs) =
     (if bol \<and> prefix pat (c # cs) then Some (drop (length pat) (c # cs))
      else search_field pat (c = nl) cs)"

definition parse_field :: "string \<Rightarrow> string \<Rightarrow> string" where
  "parse_field block field =
     (case search_field (field @ '':'') True block of
        None \<Rightarrow> []
      | Some rest \<Rightarrow>
          strip (takeWhile (\<lambda>c. c \<noteq> nl)
                   (dropWhile (\<lambda>c. c = CHR '' '' \<or> c = CHR 0x09) rest)))"

text \<open>
  \<^verbatim>\<open>pattern.sub(repl, block)\<close> for \<^verbatim>\<open>^field:.*$\<close>: every match, that is every
  \<^verbatim>\<open>field:\<close> at a line start together with the rest of its line, is replaced by the
  expanded template; the scan goes on behind the match.
\<close>

function sub_field :: "string \<Rightarrow> piece list \<Rightarrow> bool \<Rightarrow> string \<Rightarrow> string" where
  "sub_field field tpl bol s =
     (if s = [] then []
      else if bol \<and> prefix (field @ '':'') s then
        expand tpl (field @ '':'' @ takeWhile (\<lambda>c. c \<noteq> nl) (drop (Suc (length field)) s))
          @ sub_field field tpl False (dropWhile (\<lambda>c. c \<noteq> nl) (drop (Suc (length field)) s))
      else hd s # sub_field field tpl (hd s = nl) (tl s))"
  by pat_completeness auto
termination
proof (relation "measure (\<lambda>(field, tpl, bol, s). length s)")
  fix field :: string and tpl :: "piece list" and bol :: bool and s :: string
  assume "s \<noteq> []"
  then have "0 < length s"
    by simp
  moreover have "length (dropWhile (\<lambda>c. c \<noteq> nl) (drop (Suc (length field)) s))
      \<le> length s - Suc (length field)"
    using length_dropWhile_le [of "\<lambda>c. c \<noteq> nl" "drop (Suc (length field)) s"] by simp
  ultimately have "length (dropWhile (\<lambda>c. c \<noteq> nl) (drop (Suc (length field)) s)) < length s"
    by arith
  then show "((field, tpl, False, dropWhile (\<lambda>c. c \<noteq> nl) (drop (Suc (length field)) s)),
      field, tpl, bol, s) \<in> measure (\<lambda>(field, tpl, bol, s). length s)"
    by simp
qed auto

definition has_field :: "string \<Rightarrow> string \<Rightarrow> bool" where
  "has_field block field \<longleftrightarrow> search_field (field @ '':'') True block \<noteq> None"

definition replace_field :: "string \<Rightarrow> string \<Rightarrow> string \<Rightarrow> py_error + string" where
  "replace_field block field val =
     (if has_field block field
      then ebind (parse_template (field @ '': '' @ val))
             (\<lambda>tpl. Inr (sub_field field tpl True block))
      else Inr block)"

text \<open>The line view of a block, used to state what a replacement touches:
  \<open>split_nl\<close> is \<^verbatim>\<open>s.split("\n")\<close> and \<open>join_nl\<close> is \<^verbatim>\<open>"\n".join(lines)\<close>.\<close>

fun split_nl :: "string \<Rightarrow> string list" where
  "split_nl [] = [[]]"
| "split_nl (c # cs) =
     (if c = nl then [] # split_nl cs
      else case split_nl cs of [] \<Rightarrow> [[c]] | l # ls \<Rightarrow> (c # l) # ls)"

fun join_nl :: "string list \<Rightarrow> string" where
  "join_nl [] = []"
| "join_nl [l] = l"
| "join_nl (l # m # ls) = l @ nl # join_nl (m # ls)"

text \<open>What a replacement does to one line, and the value read from a field line.\<close>

definition line_sub :: "string \<Rightarrow> piece list \<Rightarrow> string \<Rightarrow> string" where
  "line_sub field tpl l = (if prefix (field @ '':'') l then expand tpl l else l)"


section \<open>Document index\<close>

text \<open>
  \<^verbatim>\<open>_parse_questions_from_report\<close> iterates over the matches of
  \<^verbatim>\<open>^## (?P<id>[^:]+): (?P<title>.*)$\<close>.  At a line start the pattern needs
  \<^verbatim>\<open>## \<close>, then the longest run of characters other than a colon (newlines
  included, at least one character), then a colon and a space; the title is the rest of
  that line.  \<open>heading_len\<close> is the length of the match at the front of its argument.
\<close>

definition heading_len :: "string \<Rightarrow> nat option" where
  "heading_len s =
     (if prefix ''## '' s then
        (let rest = drop 3 s;
             r = takeWhile (\<lambda>c. c \<noteq> CHR '':'') rest;
             after = drop (length r) rest
         in if r \<noteq> [] \<and> prefix '': '' after
            then Some (3 + length r + 2 + length (takeWhile (\<lambda>c. c \<noteq> nl) (drop 2 after)))
            else None)
      else None)"

text \<open>\<^verbatim>\<open>s.find(old)\<close>: the index of the first occurrence.\<close>

fun find_sub :: "string \<Rightarrow> string \<Rightarrow> nat option" where
  "find_sub old [] = (if old = [] then Some 0 else None)"
| "find_sub old (c # cs) =
     (if prefix old (c # cs) then Some 0 else map_option Suc (find_sub old cs))"

text \<open>The number of characters behind a heading match that still belong to its block:
  up to the next \<^verbatim>\<open>"\n## "\<close>, or to the end of the document.\<close>

definition block_tail :: "string \<Rightarrow> nat" where
  "block_tail s = (case find_sub (nl # ''## '') s of None \<Rightarrow> length s | Some k \<Rightarrow> k)"

function scan_blocks :: "bool \<Rightarrow> string \<Rightarrow> string list" where
  "scan_blocks bol s =
     (if s = [] then []
      else case (if bol then heading_len s else None) of
        Some n \<Rightarrow> take (n + block_tail (drop n s)) s # scan_blocks False (drop n s)
      | None \<Rightarrow> scan_blocks (hd s = nl) (tl s))"
  by pat_completeness auto
termination
  by (relation "measure (\<lambda>(bol, s). length s)")
    (auto simp: heading_len_def Let_def split: if_splits)

record entry =
  entry_id :: string
  entry_title :: string
  entry_question :: string
  entry_status :: string
  entry_confidence :: string
  entry_kanbus :: string
  entry_block :: string

text \<open>\<^verbatim>\<open>_parse_question_block\<close>: the unpacking of
  \<^verbatim>\<open>header[3:].split(": ", 1)\<close> raises \<^verbatim>\<open>ValueError\<close> when the first line of the
  block holds no \<^verbatim>\<open>": "\<close>.\<close>

definition parse_question_block :: "string \<Rightarrow> py_error + entry" where
  "parse_question_block block =
     (case split_once '': '' (drop 3 (first_line block)) of
        None \<Rightarrow> Inl ValueError
      | Some (qid, title) \<Rightarrow>
          Inr \<lparr> entry_id = strip qid,
                entry_title = strip title,
                entry_question = parse_field block ''Question'',
                entry_status = parse_field block ''Status'',
                entry_confidence = parse_field block ''Confidence'',
                entry_kanbus = parse_field block ''Kanbus Task'',
                entry_block = block \<rparr>)"

fun map_err :: "('a \<Rightarrow> py_error + 'b) \<Rightarrow> 'a list \<Rightarrow> py_error + 'b list" where
  "map_err f [] = Inr []"
| "map_err f (x # xs) =
     (case f x of
        Inl e \<Rightarrow> Inl e
      | Inr y \<Rightarrow> (case map_err f xs of Inl e \<Rightarrow> Inl e | Inr ys \<Rightarrow> Inr (y # ys)))"

definition parse_questions_from_report :: "string \<Rightarrow> py_error + entry list" where
  "parse_questions_from_report content = map_err parse_question_block (scan_blocks True content)"

text \<open>Writing parsed blocks back: every command rewrites the document with
  \<^verbatim>\<open>new_content = new_content.replace(block, block_new)\<close>, one entry after the other.
  \<open>rewrite_unchanged\<close> is that loop with every block put back for itself.\<close>

definition rewrite_unchanged :: "string \<Rightarrow> entry list \<Rightarrow> string" where
  "rewrite_unchanged content entries =
     foldl (\<lambda>new_content e. py_replace new_content (entry_block e) (entry_block e)) content entries"

section \<open>Question text and titles\<close>

function collapse_ws :: "string \<Rightarrow> string" where
  "collapse_ws [] = []"
| "collapse_ws (c # cs) =
     (if isspace c then CHR '' '' # collapse_ws (dropWhile isspace cs)
      else c # collapse_ws cs)"
  by pat_completeness auto
termination
  by (relation "measure length") (auto simp: less_Suc_eq_le length_dropWhile_le)

definition nbsp :: char where
  "nbsp = CHR 0xA0"

definition a_circ :: char where
  "a_circ = CHR 0xC2"

definition clean_chars :: "string \<Rightarrow> string" where
  "clean_chars s = py_replace (py_replace s [nbsp] '' '') [a_circ] '' ''"

definition normalize_text :: "string \<Rightarrow> string" where
  "normalize_text text = strip (collapse_ws (clean_chars text))"

definition short_title :: "string \<Rightarrow> string" where
  "short_title question =
     (let title = strip question
      in if length title > 80 then rstrip (take 77 title) @ ''...'' else title)"

section \<open>Reports on disk\<close>

text \<open>The assessment directory holds one report per pillar; \<open>reports\<close> maps a pillar
  to the text of its report, when the file exists.\<close>

type_synonym reports = "string \<Rightarrow> string option"

definition PILLARS :: "string list" where
  "PILLARS = [''operational-excellence'', ''security'', ''reliability'',
     ''performance-efficiency'', ''cost-optimization'', ''sustainability'']"

section \<open>Evidence application\<close>

record inventory =
  languages :: "string list"
  infra :: "string list"
  ci :: "string list"

fun join_sep :: "string \<Rightarrow> string list \<Rightarrow> string" where
  "join_sep sep [] = []"
| "join_sep sep [x] = x"
| "join_sep sep (x # y # ys) = x @ sep @ join_sep sep (y # ys)"

definition evidence_summary :: "inventory \<Rightarrow> string" where
  "evidence_summary invt =
     join_sep '', ''
       ((if languages invt \<noteq> [] then [''languages='' @ join_sep '','' (languages invt)] else [])
        @ (if infra invt \<noteq> [] then [''infra='' @ join_sep '','' (infra invt)] else [])
        @ (if ci invt \<noteq> [] then [''ci='' @ join_sep '','' (ci invt)] else []))"

definition question_text_of :: "entry \<Rightarrow> string" where
  "question_text_of e =
     normalize_text (if entry_question e \<noteq> [] then entry_question e else entry_title e)"

text \<open>Lines 534 to 539: the status the record is reconciled to.\<close>

definition reconcile_status :: "string \<Rightarrow> entry \<Rightarrow> string" where
  "reconcile_status summary e =
     (let current_status = (if entry_status e \<noteq> [] then entry_status e else ''unanswered'');
          answer_text = parse_field (entry_block e) ''Answer''
      in if answer_text \<noteq> [] then ''answered''
         else if current_status = ''answered''
           then (if summary \<noteq> [] then ''partial'' else ''needs_human'')
         else current_status)"

text \<open>Lines 540 to 548: the Evidence and Status fields are written.\<close>

definition write_status :: "string \<Rightarrow> string \<Rightarrow> string \<Rightarrow> py_error + string" where
  "write_status summary current_status block =
     ebind (replace_field block ''Evidence'' summary) (\<lambda>b1.
     ebind (if current_status = ''answered'' then replace_field b1 ''Status'' ''answered''
            else Inr b1) (\<lambda>b2.
       if current_status \<noteq> ''answered''
       then (if summary \<noteq> [] then replace_field b2 ''Status'' ''partial''
             else replace_field b2 ''Status'' ''needs_human'')
       else Inr b2))"

text \<open>Lines 549 to 556: the prompt for a person.\<close>

definition hq_prefix :: string where
  "hq_prefix = ''Please describe how your team addresses:''"

definition write_human_questions :: "string \<Rightarrow> string \<Rightarrow> string \<Rightarrow> py_error + string" where
  "write_human_questions question_text current_status block_new =
     (if question_text \<noteq> [] \<and> current_status \<noteq> ''answered'' then
        (let existing_hq = parse_field block_new ''Human Questions''
         in if existing_hq = [] \<or> prefix hq_prefix existing_hq
            then replace_field block_new ''Human Questions''
                   (hq_prefix @ '' '' @ question_text)
            else Inr block_new)
      else Inr block_new)"

text \<open>
  Lines 560 to 565: \<^verbatim>\<open>re.sub(r"^##\s+[^:]+:.*$", ..., flags=re.MULTILINE)\<close>.  At a
  line start the pattern needs \<^verbatim>\<open>##\<close>, a white-space character, and at least one
  more character before the first colon (both classes hold newlines, so the run up to
  the colon may span lines); the match ends with the line of that colon.
\<close>

definition title_match_len :: "string \<Rightarrow> nat option" where
  "title_match_len s =
     (if prefix ''##'' s then
        (let rest = drop 2 s;
             r = takeWhile (\<lambda>c. c \<noteq> CHR '':'') rest
         in if 2 \<le> length r \<and> isspace (hd r) \<and> length r < length rest
            then Some (2 + length r + 1
                       + length (takeWhile (\<lambda>c. c \<noteq> nl) (drop (Suc (length r)) rest)))
            else None)
      else None)"

function sub_heading_title :: "piece list \<Rightarrow> bool \<Rightarrow> string \<Rightarrow> string" where
  "sub_heading_title tpl bol s =
     (if s = [] then []
      else case (if bol then title_match_len s else None) of
        Some n \<Rightarrow> expand tpl (take n s) @ sub_heading_title tpl False (drop n s)
      | None \<Rightarrow> hd s # sub_heading_title tpl (hd s = nl) (tl s))"
  by pat_completeness auto
termination
  by (relation "measure (\<lambda>(tpl, bol, s). length s)")
    (auto simp: title_match_len_def Let_def split: if_splits)

text \<open>
  Lines 566 and 569: \<^verbatim>\<open>re.sub(r"^##\s+([^:]+):\s+", r"## \1: ", ...)\<close>.  The match
  is as above up to the colon and then takes the white space behind the colon, at least
  one character, newlines included.  Group 1 is the text between the leading white space
  and the colon; when that run is white space only, the last of its characters.
\<close>

definition space_match :: "string \<Rightarrow> (nat \<times> string) option" where
  "space_match s =
     (if prefix ''##'' s then
        (let rest = drop 2 s;
             r = takeWhile (\<lambda>c. c \<noteq> CHR '':'') rest;
             ws = takeWhile isspace (drop (Suc (length r)) rest);
             g = dropWhile isspace r
         in if 2 \<le> length r \<and> isspace (hd r) \<and> length r < length rest \<and> ws \<noteq> []
            then Some (2 + length r + 1 + length ws, if g = [] then [last r] else g)
            else None)
      else None)"

function sub_heading_space :: "bool \<Rightarrow> string \<Rightarrow> string" where
  "sub_heading_space bol s =
     (if s = [] then []
      else case (if bol then space_match s else None) of
        Some (n, g) \<Rightarrow>
          ''## '' @ g @ '': '' @ sub_heading_space (last (take n s) = nl) (drop n s)
      | None \<Rightarrow> hd s # sub_heading_space (hd s = nl) (tl s))"
  by pat_completeness auto
termination
  by (relation "measure (\<lambda>(bol, s). length s)")
    (auto simp: space_match_def Let_def split: if_splits)

text \<open>Lines 557 to 565: the Question field and the heading are rewritten.  The template
  of the heading is compiled whether or not the heading matches.\<close>

definition write_question_title :: "string \<Rightarrow> string \<Rightarrow> string \<Rightarrow> py_error + string" where
  "write_question_title qid question_text block_new =
     (if question_text \<noteq> [] then
        ebind (replace_field block_new ''Question'' question_text) (\<lambda>b.
        ebind (parse_template (''## '' @ qid @ '': '' @ short_title question_text)) (\<lambda>tpl.
          Inr (sub_heading_title tpl True b)))
      else Inr block_new)"

text \<open>Lines 532 to 567: the new text of one block.\<close>

definition apply_evidence_block :: "string \<Rightarrow> entry \<Rightarrow> py_error + string" where
  "apply_evidence_block summary e =
     (let question_text = question_text_of e;
          current_status = reconcile_status summary e
      in ebind (write_status summary current_status (entry_block e)) (\<lambda>b1.
         ebind (write_human_questions question_text current_status b1) (\<lambda>b2.
         ebind (write_question_title (entry_id e) question_text b2) (\<lambda>b3.
           Inr (clean_chars (sub_heading_space True b3))))))"

text \<open>Lines 531 to 568: the loop over the entries of one report.\<close>

fun apply_evidence_entries :: "string \<Rightarrow> string \<Rightarrow> entry list \<Rightarrow> py_error + string" where
  "apply_evidence_entries summary new_content [] = Inr new_content"
| "apply_evidence_entries summary new_content (e # es) =
     ebind (apply_evidence_block summary e) (\<lambda>block_new.
       apply_evidence_entries summary (py_replace new_content (entry_block e) block_new) es)"

text \<open>Lines 528 to 570: the new text of one report.\<close>

definition apply_evidence_content :: "string \<Rightarrow> string \<Rightarrow> py_error + string" where
  "apply_evidence_content summary content =
     ebind (parse_questions_from_report content) (\<lambda>entries.
     ebind (apply_evidence_entries summary content entries) (\<lambda>new_content.
       Inr (clean_chars (sub_heading_space True new_content))))"

text \<open>The loop over the pillars writes each report as soon as it is computed, so an
  exception leaves the reports of the earlier pillars rewritten: the result is the
  reports as they are left, and the exception when there is one.\<close>

fun apply_evidence_pillars :: "string \<Rightarrow> string list \<Rightarrow> reports \<Rightarrow> reports \<times> py_error option" where
  "apply_evidence_pillars summary [] fs = (fs, None)"
| "apply_evidence_pillars summary (p # ps) fs =
     (case fs p of
        None \<Rightarrow> apply_evidence_pillars summary ps fs
      | Some content \<Rightarrow>
          (case apply_evidence_content summary content of
             Inl err \<Rightarrow> (fs, Some err)
           | Inr new_content \<Rightarrow> apply_evidence_pillars summary ps (fs(p \<mapsto> new_content))))"

definition cmd_apply_evidence :: "inventory option \<Rightarrow> reports \<Rightarrow> reports \<times> py_error option" where
  "cmd_apply_evidence evidence fs =
     (case evidence of
        None \<Rightarrow> (fs, Some (WAIError ''evidence.json not found. Run wai scan first.''))
      | Some invt \<Rightarrow> apply_evidence_pillars (evidence_summary invt) PILLARS fs)"

section \<open>Evidence application, line by line\<close>

text \<open>The two replacements of \<^verbatim>\<open>_normalize_text\<close> and of lines 567 and 570 on one
  character.\<close>

definition clean_char :: "char \<Rightarrow> char" where
  "clean_char c = (if c = nbsp \<or> c = a_circ then CHR '' '' else c)"







section \<open>Recording an answer\<close>

text \<open>Lines 607 to 612: the new text of a matching block.  \<open>now\<close> is the reading of
  the clock, in ISO format; the script reads the clock for every matching record, and
  the model takes one reading for the run.\<close>

definition record_answer_block :: "string \<Rightarrow> string \<Rightarrow> string \<Rightarrow> string \<Rightarrow> string \<Rightarrow> py_error + string" where
  "record_answer_block status confidence answer_text now block =
     ebind (replace_field block ''Status'' status) (\<lambda>b1.
     ebind (replace_field b1 ''Confidence'' confidence) (\<lambda>b2.
     ebind (parse_template (''Answer: '' @ answer_text)) (\<lambda>tpl.
       replace_field (sub_field ''Answer'' tpl True b2) ''Last Updated'' now)))"

text \<open>What lines 607 to 612 do to one line of the block when the four values are
  plain text.\<close>

definition record_line :: "string \<Rightarrow> string \<Rightarrow> string \<Rightarrow> string \<Rightarrow> string \<Rightarrow> string" where
  "record_line status confidence answer_text now l =
     (if prefix ''Status:'' l then ''Status: '' @ status
      else if prefix ''Confidence:'' l then ''Confidence: '' @ confidence
      else if prefix ''Answer:'' l then ''Answer: '' @ answer_text
      else if prefix ''Last Updated:'' l then ''Last Updated: '' @ now
      else l)"

text \<open>Lines 604 to 614: the loop over the entries of one report; the flag is
  \<^verbatim>\<open>updated\<close>.\<close>

fun record_answer_entries ::
  "string \<Rightarrow> string \<Rightarrow> string \<Rightarrow> string \<Rightarrow> string \<Rightarrow> string \<times> bool \<Rightarrow> entry list
    \<Rightarrow> py_error + string \<times> bool" where
  "record_answer_entries question_id status confidence answer_text now acc [] = Inr acc"
| "record_answer_entries question_id status confidence answer_text now (new_content, updated) (e # es) =
     (if entry_id e \<noteq> question_id
      then record_answer_entries question_id status confidence answer_text now (new_content, updated) es
      else ebind (record_answer_block status confidence answer_text now (entry_block e)) (\<lambda>block_new.
             record_answer_entries question_id status confidence answer_text now
               (py_replace new_content (entry_block e) block_new, True) es))"

fun record_answer_pillars ::
  "string \<Rightarrow> string \<Rightarrow> string \<Rightarrow> string \<Rightarrow> string \<Rightarrow> string list \<Rightarrow> reports \<times> bool
    \<Rightarrow> (reports \<times> bool) \<times> py_error option" where
  "record_answer_pillars question_id status confidence answer_text now [] acc = (acc, None)"
| "record_answer_pillars question_id status confidence answer_text now (p # ps) (fs, updated) =
     (case fs p of
        None \<Rightarrow> record_answer_pillars question_id status confidence answer_text now ps (fs, updated)
      | Some content \<Rightarrow>
          (case ebind (parse_questions_from_report content)
                  (record_answer_entries question_id status confidence answer_text now
                     (content, updated)) of
             Inl err \<Rightarrow> ((fs, updated), Some err)
           | Inr (new_content, updated') \<Rightarrow>
               record_answer_pillars question_id status confidence answer_text now ps
                 (if new_content \<noteq> content then fs(p \<mapsto> new_content) else fs, updated')))"

text \<open>\<^verbatim>\<open>cmd_record_answer\<close>: \<open>raw_answer\<close> is the text of the answer file.\<close>

definition cmd_record_answer ::
  "string \<Rightarrow> string \<Rightarrow> string \<Rightarrow> string \<Rightarrow> string \<Rightarrow> reports \<Rightarrow> reports \<times> py_error option" where
  "cmd_record_answer question_id status confidence raw_answer now fs =
     (let answer_text = strip (collapse_ws raw_answer)
      in case record_answer_pillars question_id status confidence answer_text now PILLARS (fs, False) of
           ((fs', updated), Some err) \<Rightarrow> (fs', Some err)
         | ((fs', updated), None) \<Rightarrow>
             (if \<not> updated then (fs', Some (WAIError ''Question ID not found in reports''))
              else (fs', None)))"

section \<open>The external tracker\<close>

definition STATUS_VALUES :: "string set" where
  "STATUS_VALUES = {''unanswered'', ''partial'', ''answered'', ''needs_human''}"

definition CONFIDENCE_VALUES :: "string set" where
  "CONFIDENCE_VALUES = {''low'', ''medium'', ''high'', ''n/a''}"

text \<open>
  The tracker is a command-line program.  \<open>tracker\<close> gives the outcome of a command
  from the commands run before it; the log of a run is the list of the commands it has
  issued, in order, each with its outcome.  A tracker that cannot be started at all is
  outside the model.
\<close>

record proc =
  returncode :: int
  stdout :: string
  stderr :: string

type_synonym tracker = "string list list \<Rightarrow> string list \<Rightarrow> proc"

type_synonym call_log = "(string list \<times> proc) list"

definition failure_message :: "string list \<Rightarrow> proc \<Rightarrow> string" where
  "failure_message cmd pr =
     (if strip (stderr pr) \<noteq> [] then strip (stderr pr)
      else ''Command failed: '' @ join_sep '' '' cmd)"

definition run :: "tracker \<Rightarrow> call_log \<Rightarrow> string list \<Rightarrow> call_log \<times> (py_error + string)" where
  "run tr log cmd =
     (let pr = tr (map fst log) cmd
      in (log @ [(cmd, pr)],
          if returncode pr \<noteq> 0 then Inl (WAIError (failure_message cmd pr))
          else Inr (stdout pr)))"

definition kanbus_comment :: "tracker \<Rightarrow> call_log \<Rightarrow> string \<Rightarrow> string \<Rightarrow> call_log \<times> py_error option" where
  "kanbus_comment tr log issue text =
     (case run tr log [''kanbus'', ''comment'', issue, text] of
        (log', Inl err) \<Rightarrow> (log', Some err)
      | (log', Inr out) \<Rightarrow> (log', None))"

definition kanbus_update_status :: "tracker \<Rightarrow> call_log \<Rightarrow> string \<Rightarrow> string \<Rightarrow> call_log \<times> py_error option" where
  "kanbus_update_status tr log issue status =
     (case run tr log [''kanbus'', ''update'', issue, ''--status'', status] of
        (log', Inl (WAIError msg)) \<Rightarrow>
          (if contains ''no updates requested'' msg then (log', None)
           else (log', Some (WAIError msg)))
      | (log', Inl err) \<Rightarrow> (log', Some err)
      | (log', Inr out) \<Rightarrow> (log', None))"

section \<open>Identity resolver\<close>

text \<open>An entity of the snapshot; a field is \<open>None\<close> when the key is missing.\<close>

record issue =
  issue_id :: "string option"
  issue_title :: "string option"
  issue_parent :: "string option"
  issue_created_at :: "string option"

definition is_full_id :: "string \<Rightarrow> bool" where
  "is_full_id issue \<longleftrightarrow> count_char (CHR ''-'') issue \<ge> 5"

definition get_or_empty :: "string option \<Rightarrow> string" where
  "get_or_empty v = (case v of None \<Rightarrow> [] | Some x \<Rightarrow> x)"

text \<open>Lines 300 to 304.\<close>

definition candidates_of :: "issue list \<Rightarrow> string \<Rightarrow> string \<Rightarrow> string \<Rightarrow> issue list" where
  "candidates_of issues short_id title parent =
     (let c1 = filter (\<lambda>i. prefix short_id (get_or_empty (issue_id i))) issues;
          c2 = (if title \<noteq> [] then filter (\<lambda>i. issue_title i = Some title) c1 else c1)
      in if parent \<noteq> [] then filter (\<lambda>i. issue_parent i = Some parent) c2 else c2)"

text \<open>Lines 305 to 308; \<^verbatim>\<open>list.sort\<close> is stable, as \<open>sort_key\<close> is, and
  \<^verbatim>\<open>candidates[-1]["id"]\<close> raises \<^verbatim>\<open>KeyError\<close> on an entity without identifier.\<close>

definition resolve_in :: "issue list \<Rightarrow> string \<Rightarrow> string \<Rightarrow> string \<Rightarrow> py_error + string" where
  "resolve_in issues short_id title parent =
     (let candidates = candidates_of issues short_id title parent
      in if candidates = [] then Inr short_id
         else case issue_id (last (sort_key (\<lambda>i. get_or_empty (issue_created_at i)) candidates)) of
                None \<Rightarrow> Inl KeyError
              | Some full \<Rightarrow> Inr full)"

text \<open>\<^verbatim>\<open>_resolve_full_id\<close>.  Without a snapshot from the caller the tracker is asked
  for one; \<open>decode\<close> reads the entities from its output (\<open>None\<close> when
  \<^verbatim>\<open>json.loads\<close> or the lookup raises), and any failure yields the short identifier.\<close>

definition snapshot_cmd :: "string list" where
  "snapshot_cmd = [''kanbus'', ''console'', ''snapshot'']"

definition resolve_full_id ::
  "tracker \<Rightarrow> (string \<Rightarrow> issue list option) \<Rightarrow> call_log \<Rightarrow> string \<Rightarrow> string \<Rightarrow> string
    \<Rightarrow> issue list option \<Rightarrow> call_log \<times> (py_error + string)" where
  "resolve_full_id tr decode log short_id title parent issues =
     (if is_full_id short_id then (log, Inr short_id)
      else case issues of
        Some given \<Rightarrow> (log, resolve_in given short_id title parent)
      | None \<Rightarrow>
          (case run tr log snapshot_cmd of
             (log', Inl err) \<Rightarrow> (log', Inr short_id)
           | (log', Inr out) \<Rightarrow>
               (case decode out of
                  None \<Rightarrow> (log', Inr short_id)
                | Some fetched \<Rightarrow> (log', resolve_in fetched short_id title parent))))"

section \<open>Tracker sync\<close>

text \<open>The mapping written at initialisation: the epic of each pillar, in the order of
  the file, and the task of each question.  Identifiers are strings; a question without
  a task has no entry.\<close>

record kanbus_map =
  km_epics :: "(string \<times> string) list"
  km_tasks :: "string \<Rightarrow> string option"

text \<open>Lines 639 to 651: one record.\<close>

definition sync_entry ::
  "tracker \<Rightarrow> (string \<Rightarrow> issue list option) \<Rightarrow> kanbus_map \<Rightarrow> issue list \<Rightarrow> call_log \<Rightarrow> entry
    \<Rightarrow> call_log \<times> py_error option" where
  "sync_entry tr decode km issues log e =
     (case km_tasks km (entry_id e) of
        None \<Rightarrow> (log, None)
      | Some short \<Rightarrow>
          if short = [] then (log, None)
          else case resolve_full_id tr decode log short [] [] (Some issues) of
            (log0, Inl err) \<Rightarrow> (log0, Some err)
          | (log0, Inr task_id) \<Rightarrow>
              (let answer = parse_field (entry_block e) ''Answer''
               in case (if answer \<noteq> []
                        then kanbus_comment tr log0 task_id (''Answer:'' @ [nl] @ answer)
                        else (log0, None)) of
                    (log1, Some err) \<Rightarrow> (log1, Some err)
                  | (log1, None) \<Rightarrow>
                      if entry_status e = ''answered''
                        then kanbus_update_status tr log1 task_id ''closed''
                      else if entry_status e = ''needs_human''
                        then kanbus_update_status tr log1 task_id ''blocked''
                      else (log1, None)))"

fun sync_entries ::
  "tracker \<Rightarrow> (string \<Rightarrow> issue list option) \<Rightarrow> kanbus_map \<Rightarrow> issue list \<Rightarrow> call_log \<Rightarrow> entry list
    \<Rightarrow> call_log \<times> py_error option" where
  "sync_entries tr decode km issues log [] = (log, None)"
| "sync_entries tr decode km issues log (e # es) =
     (case sync_entry tr decode km issues log e of
        (log', Some err) \<Rightarrow> (log', Some err)
      | (log', None) \<Rightarrow> sync_entries tr decode km issues log' es)"

text \<open>Lines 632 to 651: the loop over the pillars.\<close>

fun sync_pillars ::
  "tracker \<Rightarrow> (string \<Rightarrow> issue list option) \<Rightarrow> kanbus_map \<Rightarrow> issue list \<Rightarrow> reports \<Rightarrow> call_log
    \<Rightarrow> string list \<Rightarrow> call_log \<times> py_error option" where
  "sync_pillars tr decode km issues fs log [] = (log, None)"
| "sync_pillars tr decode km issues fs log (p # ps) =
     (case fs p of
        None \<Rightarrow> sync_pillars tr decode km issues fs log ps
      | Some content \<Rightarrow>
          (case parse_questions_from_report content of
             Inl err \<Rightarrow> (log, Some err)
           | Inr entries \<Rightarrow>
               (case sync_entries tr decode km issues log entries of
                  (log', Some err) \<Rightarrow> (log', Some err)
                | (log', None) \<Rightarrow> sync_pillars tr decode km issues fs log' ps)))"

text \<open>Lines 654 to 668: an epic is closed when every record of its report is answered.\<close>

fun sync_epics ::
  "tracker \<Rightarrow> (string \<Rightarrow> issue list option) \<Rightarrow> issue list \<Rightarrow> reports \<Rightarrow> call_log
    \<Rightarrow> (string \<times> string) list \<Rightarrow> call_log \<times> py_error option" where
  "sync_epics tr decode issues fs log [] = (log, None)"
| "sync_epics tr decode issues fs log ((pillar, short) # rest) =
     (case resolve_full_id tr decode log short [] [] (Some issues) of
        (log0, Inl err) \<Rightarrow> (log0, Some err)
      | (log0, Inr epic_id) \<Rightarrow>
          (case fs pillar of
             None \<Rightarrow> sync_epics tr decode issues fs log0 rest
           | Some content \<Rightarrow>
               (case parse_questions_from_report content of
                  Inl err \<Rightarrow> (log0, Some err)
                | Inr entries \<Rightarrow>
                    if list_all (\<lambda>e. entry_status e = ''answered'') entries
                    then (case kanbus_update_status tr log0 epic_id ''closed'' of
                            (log', Some err) \<Rightarrow> (log', Some err)
                          | (log', None) \<Rightarrow> sync_epics tr decode issues fs log' rest)
                    else sync_epics tr decode issues fs log0 rest)))"

text \<open>\<^verbatim>\<open>cmd_sync_kanbus\<close>: the snapshot is fetched first, and a failure there leaves
  the list of entities empty.  The result is the log of the commands issued and the
  exception that ended the run, when there is one.\<close>

definition cmd_sync_kanbus ::
  "tracker \<Rightarrow> (string \<Rightarrow> issue list option) \<Rightarrow> kanbus_map \<Rightarrow> reports \<Rightarrow> call_log \<times> py_error option" where
  "cmd_sync_kanbus tr decode km fs =
     (case run tr [] snapshot_cmd of
        (log0, r) \<Rightarrow>
          (let issues = (case r of
                           Inl err \<Rightarrow> []
                         | Inr out \<Rightarrow> (case decode out of None \<Rightarrow> [] | Some fetched \<Rightarrow> fetched))
           in case sync_pillars tr decode km issues fs log0 PILLARS of
                (log1, Some err) \<Rightarrow> (log1, Some err)
              | (log1, None) \<Rightarrow> sync_epics tr decode issues fs log1 (km_epics km)))"

text \<open>
  How a sync run ends, read from its log.  A call is tolerated when it succeeded, when it
  is the snapshot call (whose failure only empties the list of entities), or when it is
  a status update that failed with \<^verbatim>\<open>no updates requested\<close> in its message.
  \<open>call_error\<close> is the exception \<^verbatim>\<open>_run\<close> raises for a failed call.
\<close>

definition is_update :: "string list \<Rightarrow> bool" where
  "is_update cmd \<longleftrightarrow> length cmd = 5 \<and> take 2 cmd = [''kanbus'', ''update'']"

definition tolerated :: "string list \<times> proc \<Rightarrow> bool" where
  "tolerated call =
     (case call of (cmd, pr) \<Rightarrow>
        returncode pr = 0 \<or> cmd = snapshot_cmd
        \<or> (is_update cmd \<and> contains ''no updates requested'' (failure_message cmd pr)))"

definition call_error :: "string list \<times> proc \<Rightarrow> py_error" where
  "call_error call = WAIError (failure_message (fst call) (snd call))"

definition stops_at_failure :: "call_log \<times> py_error option \<Rightarrow> bool" where
  "stops_at_failure outcome =
     (case outcome of (log, res) \<Rightarrow>
        list_all tolerated (butlast log)
        \<and> (\<not> list_all tolerated log \<longrightarrow> res = Some (call_error (last log))))"

section \<open>Sample reports and records\<close>

text \<open>A security report with one record in the layout the initialisation writes, and
  the assessment that holds only this report.\<close>

definition report0 :: string where
  "report0 = ''# Security'' @ [nl] @ [nl]
     @ ''## SEC-1: How do you test?'' @ [nl] @ ''Question: How do you test?'' @ [nl]
     @ ''Status: unanswered'' @ [nl] @ ''Confidence: n/a'' @ [nl] @ ''Answer:'' @ [nl]
     @ ''Evidence:'' @ [nl] @ ''Human Questions:'' @ [nl] @ ''Kanbus Task: '' @ [nl]
     @ ''Last Updated: 2026-01-01'' @ [nl] @ [nl] @ [nl] @ ''> Attribution: AWS'' @ [nl]"

definition reports0 :: reports where
  "reports0 = (\<lambda>p. if p = ''security'' then Some report0 else None)"

text \<open>The same report as a preamble and one record, and the entry the parser reads
  from the record.\<close>

definition inventory_py :: inventory where
  "inventory_py = \<lparr> languages = [''.py''], infra = [], ci = [] \<rparr>"







text \<open>An assessment that holds only a security report.\<close>

definition only_security :: "string \<Rightarrow> reports" where
  "only_security content = (\<lambda>p. if p = ''security'' then Some content else None)"



definition block_rec :: string where
  "block_rec = ''## SEC-1: How do you test?'' @ [nl] @ ''Status: unanswered'' @ [nl]
     @ ''Confidence: n/a'' @ [nl] @ ''Answer:'' @ [nl] @ ''Last Updated: 2026-01-01''"

section \<open>Sample trackers\<close>


definition decode0 :: "string \<Rightarrow> issue list option" where
  "decode0 = (\<lambda>out. None)"


definition report2 :: string where
  "report2 = ''## SEC-1: How do you test?'' @ [nl] @ ''Status: answered'' @ [nl]
     @ ''Answer: We do X'' @ [nl] @ [nl]
     @ ''## SEC-2: How do you patch?'' @ [nl] @ ''Status: answered'' @ [nl]
     @ ''Answer: We do Z'' @ [nl]"

definition reports2 :: reports where
  "reports2 = (\<lambda>p. if p = ''security'' then Some report2 else None)"

definition km0 :: kanbus_map where
  "km0 = \<lparr> km_epics = [(''security'', ''kanbus-ep-1-2-3-4'')],
           km_tasks = map_of [(''SEC-1'', ''kanbus-t1-1-2-3-4''), (''SEC-2'', ''kanbus-t2-1-2-3-4'')] \<rparr>"

definition proc_ok :: proc where
  "proc_ok = \<lparr> returncode = 0, stdout = [], stderr = [] \<rparr>"

definition proc_down :: proc where
  "proc_down = \<lparr> returncode = 1, stdout = [], stderr = ''tracker unreachable'' \<rparr>"

definition proc_no_updates :: proc where
  "proc_no_updates = \<lparr> returncode = 1, stdout = [], stderr = ''no updates requested'' \<rparr>"

text \<open>The logs of the two sample runs: the tracker answers \<^verbatim>\<open>no updates requested\<close>
  to the update of the first task, and the tracker fails for the first task.\<close>

definition log_closed :: call_log where
  "log_closed =
     [(snapshot_cmd, proc_ok),
      ([''kanbus'', ''comment'', ''kanbus-t1-1-2-3-4'', ''Answer:'' @ [nl] @ ''We do X''], proc_ok),
      ([''kanbus'', ''update'', ''kanbus-t1-1-2-3-4'', ''--status'', ''closed''], proc_no_updates),
      ([''kanbus'', ''comment'', ''kanbus-t2-1-2-3-4'', ''Answer:'' @ [nl] @ ''We do Z''], proc_ok),
      ([''kanbus'', ''update'', ''kanbus-t2-1-2-3-4'', ''--status'', ''closed''], proc_ok),
      ([''kanbus'', ''update'', ''kanbus-ep-1-2-3-4'', ''--status'', ''closed''], proc_ok)]"

definition log_down :: call_log where
  "log_down =
     [(snapshot_cmd, proc_ok),
      ([''kanbus'', ''comment'', ''kanbus-t1-1-2-3-4'', ''Answer:'' @ [nl] @ ''We do X''], proc_down)]"

definition tracker_t1_down :: tracker where
  "tracker_t1_down = (\<lambda>history cmd. if ''kanbus-t1-1-2-3-4'' \<in> set cmd then proc_down else proc_ok)"

definition tracker_t1_closed :: tracker where
  "tracker_t1_closed =
     (\<lambda>history cmd. if cmd = [''kanbus'', ''update'', ''kanbus-t1-1-2-3-4'', ''--status'', ''closed'']
                     then proc_no_updates else proc_ok)"

section \<open>Lines of a block\<close>

text \<open>For a field name without a newline, the scans above work line by line.\<close>

lemma split_nl_nonempty [simp]: "split_nl s \<noteq> []"
  by (induction s) (auto split: list.splits)

lemma split_nl_Cons:
  "c \<noteq> nl \<Longrightarrow> split_nl (c # cs) = (c # hd (split_nl cs)) # tl (split_nl cs)"
  using split_nl_nonempty [of cs] by (cases "split_nl cs") auto

lemma split_nl_Cons_nl [simp]: "split_nl (nl # cs) = [] # split_nl cs"
  by simp

declare split_nl.simps(2) [simp del]

lemma join_nl_Cons_char: "join_nl ((c # l) # ls) = c # join_nl (l # ls)"
  by (cases ls) auto

lemma join_nl_Cons: "ls \<noteq> [] \<Longrightarrow> join_nl (l # ls) = l @ nl # join_nl ls"
  by (cases ls) auto

lemma join_split_nl [simp]: "join_nl (split_nl s) = s"
proof (induction s)
  case Nil
  show ?case by simp
next
  case (Cons c cs)
  show ?case
  proof (cases "c = nl")
    case True
    with Cons show ?thesis by (simp add: join_nl_Cons split_nl_Cons_nl)
  next
    case False
    have "join_nl ((c # hd (split_nl cs)) # tl (split_nl cs)) = c # join_nl (hd (split_nl cs) # tl (split_nl cs))"
      by (rule join_nl_Cons_char)
    with False Cons show ?thesis by (simp add: split_nl_Cons)
  qed
qed

lemma split_nl_no_nl: "l \<in> set (split_nl s) \<Longrightarrow> nl \<notin> set l"
proof (induction s arbitrary: l)
  case Nil
  then show ?case by simp
next
  case (Cons c cs)
  show ?case
  proof (cases "c = nl")
    case True
    with Cons show ?thesis by (auto simp: split_nl_Cons_nl)
  next
    case False
    from Cons.prems False have "l = c # hd (split_nl cs) \<or> l \<in> set (tl (split_nl cs))"
      by (simp add: split_nl_Cons)
    moreover have "hd (split_nl cs) \<in> set (split_nl cs)"
      by simp
    moreover have "set (tl (split_nl cs)) \<subseteq> set (split_nl cs)"
      by (cases "split_nl cs") auto
    ultimately show ?thesis
      using Cons.IH False by auto
  qed
qed

lemma hd_split_nl: "hd (split_nl s) = takeWhile (\<lambda>c. c \<noteq> nl) s"
proof (induction s)
  case Nil
  show ?case by simp
next
  case (Cons c cs)
  then show ?case
    by (cases "c = nl") (simp_all add: split_nl_Cons split_nl_Cons_nl)
qed

lemma tl_split_nl:
  "tl (split_nl s) = (case dropWhile (\<lambda>c. c \<noteq> nl) s of [] \<Rightarrow> [] | c # r \<Rightarrow> split_nl r)"
proof (induction s)
  case Nil
  show ?case by simp
next
  case (Cons c cs)
  then show ?case
    by (cases "c = nl") (simp_all add: split_nl_Cons split_nl_Cons_nl)
qed

lemma split_nl_unfold:
  "split_nl s = takeWhile (\<lambda>c. c \<noteq> nl) s
     # (case dropWhile (\<lambda>c. c \<noteq> nl) s of [] \<Rightarrow> [] | c # r \<Rightarrow> split_nl r)"
  using hd_split_nl [of s] tl_split_nl [of s] split_nl_nonempty [of s]
  by (cases "split_nl s") auto

lemma prefix_takeWhile_nl:
  "nl \<notin> set pat \<Longrightarrow> prefix pat (takeWhile (\<lambda>c. c \<noteq> nl) s) \<longleftrightarrow> prefix pat s"
proof (induction pat arbitrary: s)
  case Nil
  show ?case by simp
next
  case (Cons p ps)
  then show ?case by (cases s) auto
qed

lemma split_nl_append_line:
  "nl \<notin> set l \<Longrightarrow> split_nl (l @ nl # s) = l # split_nl s"
  by (induction l) (auto simp: split_nl_Cons split_nl_Cons_nl)

lemma split_nl_line: "nl \<notin> set l \<Longrightarrow> split_nl l = [l]"
  by (induction l) (auto simp: split_nl_Cons)

lemma split_join_lines:
  "ls \<noteq> [] \<Longrightarrow> \<forall>l \<in> set ls. nl \<notin> set l \<Longrightarrow> split_nl (join_nl ls) = ls"
proof (induction ls rule: join_nl.induct)
  case 1
  then show ?case by simp
next
  case (2 l)
  then show ?case by (simp add: split_nl_line)
next
  case (3 l m ls)
  then show ?case by (simp add: split_nl_append_line)
qed

declare sub_field.simps [simp del]

lemma takeWhile_nl_append:
  "nl \<notin> set p \<Longrightarrow> takeWhile (\<lambda>c. c \<noteq> nl) (p @ r) = p @ takeWhile (\<lambda>c. c \<noteq> nl) r"
  by (induction p) auto

lemma dropWhile_nl_append:
  "nl \<notin> set p \<Longrightarrow> dropWhile (\<lambda>c. c \<noteq> nl) (p @ r) = dropWhile (\<lambda>c. c \<noteq> nl) r"
  by (induction p) auto

lemma line_sub_Nil [simp]: "line_sub field tpl [] = []"
  by (simp add: line_sub_def)

lemma sub_field_lines_gen:
  assumes "nl \<notin> set field"
  shows "sub_field field tpl bol s =
     join_nl (if bol then map (line_sub field tpl) (split_nl s)
              else hd (split_nl s) # map (line_sub field tpl) (tl (split_nl s)))"
  using assms
proof (induction field tpl bol s rule: sub_field.induct)
  case (1 field tpl bol s)
  let ?pat = "field @ '':''"
  let ?g = "line_sub field tpl"
  have nlp: "nl \<notin> set ?pat"
    using "1.prems" by (simp add: nl_def)
  consider (empty) "s = []" | (match) "s \<noteq> []" "bol" "prefix ?pat s"
    | (step) "s \<noteq> []" "\<not> (bol \<and> prefix ?pat s)"
    by blast
  then show ?case
  proof cases
    case empty
    then show ?thesis
      by (simp add: sub_field.simps [of field tpl bol "[]"])
  next
    case match
    let ?d = "dropWhile (\<lambda>c. c \<noteq> nl) (drop (Suc (length field)) s)"
    let ?l0 = "takeWhile (\<lambda>c. c \<noteq> nl) s"
    from match(3) obtain rest where s: "s = ?pat @ rest"
      by (auto simp: prefix_def)
    have l0: "?l0 = ?pat @ takeWhile (\<lambda>c. c \<noteq> nl) rest"
      using takeWhile_nl_append [OF nlp, of rest] by (subst s) simp
    have dr: "drop (Suc (length field)) s = rest"
      by (subst s) simp
    have d: "?d = dropWhile (\<lambda>c. c \<noteq> nl) s"
      using dropWhile_nl_append [OF nlp, of rest] dr s by metis
    have g0: "?g ?l0 = expand tpl ?l0"
      using match(3) nlp by (simp add: line_sub_def prefix_takeWhile_nl)
    have unf: "sub_field field tpl bol s
        = expand tpl ?l0 @ sub_field field tpl False ?d"
      using match by (subst sub_field.simps) (simp add: l0 dr)
    have IH: "sub_field field tpl False ?d
        = join_nl (hd (split_nl ?d) # map ?g (tl (split_nl ?d)))"
      using "1.IH"(1) [OF match(1)] match(2,3) "1.prems" by simp
    show ?thesis
    proof (cases "?d")
      case Nil
      have "sub_field field tpl False [] = []"
        by (simp add: sub_field.simps [of field tpl False "[]"])
      then have "sub_field field tpl False ?d = []"
        by (simp only: Nil)
      moreover have "dropWhile (\<lambda>c. c \<noteq> nl) s = []"
        using Nil d by (simp only:)
      then have "split_nl s = [?l0]"
        using split_nl_unfold [of s] by (simp only: list.case)
      ultimately show ?thesis
        using match(2) unf g0 by simp
    next
      case (Cons c r)
      then have c: "c = nl"
        using hd_dropWhile [of "\<lambda>c. c \<noteq> nl" "drop (Suc (length field)) s"] by auto
      have "sub_field field tpl False ?d = nl # join_nl (map ?g (split_nl r))"
        using IH Cons c by (simp add: join_nl_Cons)
      moreover have "dropWhile (\<lambda>c. c \<noteq> nl) s = c # r"
        using Cons d by (simp only:)
      then have "split_nl s = ?l0 # split_nl r"
        using split_nl_unfold [of s] by (simp only: list.case)
      ultimately show ?thesis
        using match(2) unf g0 by (simp add: join_nl_Cons)
    qed
  next
    case step
    then obtain c cs where s: "s = c # cs"
      by (cases s) auto
    have unf: "sub_field field tpl bol s = c # sub_field field tpl (c = nl) cs"
      using step s by (subst sub_field.simps) auto
    have IH: "sub_field field tpl (c = nl) cs =
       join_nl (if c = nl then map ?g (split_nl cs)
                else hd (split_nl cs) # map ?g (tl (split_nl cs)))"
      using "1.IH"(2) [OF step(1)] step(2) s "1.prems" by simp
    show ?thesis
    proof (cases "c = nl")
      case True
      then show ?thesis
        using unf IH s by (simp add: join_nl_Cons split_nl_Cons_nl)
    next
      case False
      have sp: "split_nl s = (c # hd (split_nl cs)) # tl (split_nl cs)"
        using False s by (simp add: split_nl_Cons)
      then have hd_s: "hd (split_nl s) = c # hd (split_nl cs)"
        by simp
      have keep: "bol \<Longrightarrow> ?g (c # hd (split_nl cs)) = c # hd (split_nl cs)"
      proof -
        assume bol
        with step(2) have "\<not> prefix ?pat s" by simp
        then have "\<not> prefix ?pat (takeWhile (\<lambda>c. c \<noteq> nl) s)"
          using nlp by (metis prefix_takeWhile_nl)
        then have "\<not> prefix ?pat (hd (split_nl s))"
          by (metis hd_split_nl)
        then show ?thesis
          by (simp add: line_sub_def hd_s)
      qed
      show ?thesis
        using unf IH False keep by (simp add: sp join_nl_Cons_char)
    qed
  qed
qed

lemma sub_field_lines:
  "nl \<notin> set field \<Longrightarrow>
   sub_field field tpl True s = join_nl (map (line_sub field tpl) (split_nl s))"
  by (simp add: sub_field_lines_gen)


lemma find_hd: "xs \<noteq> [] \<Longrightarrow> P (hd xs) \<Longrightarrow> find P xs = Some (hd xs)"
  by (cases xs) auto

lemma search_field_lines_gen:
  assumes "nl \<notin> set pat" and "pat \<noteq> []"
  shows "map_option (takeWhile (\<lambda>c. c \<noteq> nl)) (search_field pat bol s)
     = map_option (drop (length pat))
         (find (prefix pat) (if bol then split_nl s else tl (split_nl s)))"
proof (induction s arbitrary: bol)
  case Nil
  show ?case using assms(2) by simp
next
  case (Cons c cs)
  show ?case
  proof (cases "bol \<and> prefix pat (c # cs)")
    case True
    then have "prefix pat (c # cs)"
      by simp
    then have "prefix pat (takeWhile (\<lambda>c. c \<noteq> nl) (c # cs))"
      using assms(1) by (metis prefix_takeWhile_nl)
    then have p: "prefix pat (hd (split_nl (c # cs)))"
      by (metis hd_split_nl)
    from True obtain rest where s: "c # cs = pat @ rest"
      by (auto simp: prefix_def)
    have "takeWhile (\<lambda>c. c \<noteq> nl) (drop (length pat) (c # cs))
        = drop (length pat) (takeWhile (\<lambda>c. c \<noteq> nl) (c # cs))"
      using takeWhile_nl_append [OF assms(1), of rest] by (simp only: s) simp
    moreover have "find (prefix pat) (split_nl (c # cs)) = Some (hd (split_nl (c # cs)))"
      using find_hd [OF split_nl_nonempty [of "c # cs"], of "prefix pat"] p by blast
    ultimately show ?thesis
      using True by (simp add: hd_split_nl)
  next
    case False
    have IH: "map_option (takeWhile (\<lambda>c. c \<noteq> nl)) (search_field pat (c = nl) cs)
       = map_option (drop (length pat))
           (find (prefix pat) (if c = nl then split_nl cs else tl (split_nl cs)))"
      by (rule Cons.IH)
    have np: "bol \<Longrightarrow> \<not> prefix pat (hd (split_nl (c # cs)))"
    proof -
      assume bol
      with False have "\<not> prefix pat (c # cs)" by simp
      then have "\<not> prefix pat (takeWhile (\<lambda>c. c \<noteq> nl) (c # cs))"
        using assms(1) by (metis prefix_takeWhile_nl)
      then show ?thesis by (metis hd_split_nl)
    qed
    show ?thesis
    proof (cases "c = nl")
      case True
      with False IH np assms(2) show ?thesis
        by (cases bol) (auto simp: split_nl_Cons_nl)
    next
      case False2: False
      with False IH np show ?thesis
        by (cases bol) (auto simp: split_nl_Cons)
    qed
  qed
qed

lemma has_field_lines:
  assumes "nl \<notin> set field"
  shows "has_field block field \<longleftrightarrow> (\<exists>l \<in> set (split_nl block). prefix (field @ '':'') l)"
proof -
  have "nl \<notin> set (field @ '':'')"
    using assms by (simp add: nl_def)
  then have "map_option (takeWhile (\<lambda>c. c \<noteq> nl)) (search_field (field @ '':'') True block)
     = map_option (drop (length (field @ '':''))) (find (prefix (field @ '':'')) (split_nl block))"
    using search_field_lines_gen [of "field @ '':''" True block] by simp
  then have "search_field (field @ '':'') True block = None
      \<longleftrightarrow> find (prefix (field @ '':'')) (split_nl block) = None"
    by (metis option.map_disc_iff)
  then show ?thesis
    by (auto simp: has_field_def find_None_iff)
qed


section \<open>Field replacement\<close>

lemma parse_template_literal: "bslash \<notin> set t \<Longrightarrow> parse_template t = Inr (map Lit t)"
  by (induction t) (auto simp: cons_piece_def)

lemma expand_literal [simp]: "expand (map Lit t) m = t"
  by (induction t) (auto simp: expand_def)

lemma join_nl_inj:
  assumes "\<forall>l \<in> set ls. nl \<notin> set l" and "\<forall>l \<in> set ms. nl \<notin> set l"
    and "ls \<noteq> []" and "ms \<noteq> []" and "join_nl ls = join_nl ms"
  shows "ls = ms"
  using assms split_join_lines [of ls] split_join_lines [of ms] by metis

lemma replace_field_literal:
  assumes "nl \<notin> set field" and "bslash \<notin> set field" and "bslash \<notin> set val"
  shows "replace_field block field val =
     Inr (join_nl (map (\<lambda>l. if prefix (field @ '':'') l then field @ '': '' @ val else l)
                     (split_nl block)))"
proof -
  let ?g = "\<lambda>l. if prefix (field @ '':'') l then field @ '': '' @ val else l"
  have "bslash \<notin> set (field @ '': '' @ val)"
    using assms(2,3) by (simp add: bslash_def)
  then have tpl: "parse_template (field @ '': '' @ val) = Inr (map Lit (field @ '': '' @ val))"
    by (rule parse_template_literal)
  have g: "line_sub field (map Lit (field @ '': '' @ val)) = ?g"
    by (rule ext) (simp only: line_sub_def expand_literal)
  show ?thesis
  proof (cases "has_field block field")
    case True
    then show ?thesis
      using sub_field_lines [OF assms(1), of "map Lit (field @ '': '' @ val)" block]
      by (simp only: replace_field_def tpl ebind_def g if_True sum.case)
  next
    case False
    then have "\<forall>l \<in> set (split_nl block). \<not> prefix (field @ '':'') l"
      using has_field_lines [OF assms(1), of block] by simp
    then have "map ?g (split_nl block) = split_nl block"
      by (simp add: map_idI)
    then show ?thesis
      using False by (simp add: replace_field_def)
  qed
qed

lemma replace_field_literal_lines:
  assumes "nl \<notin> set field" and "bslash \<notin> set field" and "bslash \<notin> set val" and "nl \<notin> set val"
  shows "\<exists>b. replace_field block field val = Inr b
     \<and> split_nl b = map (\<lambda>l. if prefix (field @ '':'') l then field @ '': '' @ val else l)
                     (split_nl block)"
proof -
  let ?g = "\<lambda>l. if prefix (field @ '':'') l then field @ '': '' @ val else l"
  have nlv: "nl \<notin> set (field @ '': '' @ val)"
    using assms(1,4) by (simp add: nl_def)
  have "\<forall>l \<in> set (map ?g (split_nl block)). nl \<notin> set l"
    using nlv split_nl_no_nl [of _ block] by auto
  then have "split_nl (join_nl (map ?g (split_nl block))) = map ?g (split_nl block)"
    by (intro split_join_lines) simp_all
  then show ?thesis
    using replace_field_literal [OF assms(1,2,3), of block] by simp
qed

text \<open>
  Claim C6 (locality of field replacement), as the code has it.  For a field name and a
  value free of newlines and backslashes, \<open>replace_field\<close> returns a block with the same
  lines as before, except that every line that begins with \<^verbatim>\<open>Field:\<close> (all of them, and
  with or without a space behind the colon) now reads \<^verbatim>\<open>Field: value\<close>; a block
  without such a line is returned as it is.
\<close>

theorem replace_field_local:
  assumes "nl \<notin> set field" and "bslash \<notin> set field" and "bslash \<notin> set val" and "nl \<notin> set val"
  shows "\<exists>b. replace_field block field val = Inr b
     \<and> split_nl b = map (\<lambda>l. if prefix (field @ '':'') l then field @ '': '' @ val else l)
                     (split_nl block)
     \<and> (\<not> has_field block field \<longrightarrow> b = block)"
proof -
  obtain b where b: "replace_field block field val = Inr b"
    and l: "split_nl b = map (\<lambda>l. if prefix (field @ '':'') l then field @ '': '' @ val else l)
                     (split_nl block)"
    using replace_field_literal_lines [OF assms, of block] by blast
  have "\<not> has_field block field \<longrightarrow> b = block"
    using b by (auto simp: replace_field_def)
  with b l show ?thesis by blast
qed

theorem replace_field_local_witness:
  "replace_field (''Status: unanswered'' @ [nl] @ ''Answer:'') ''Answer'' ''yes''
     = Inr (''Status: unanswered'' @ [nl] @ ''Answer: yes'')
   \<and> replace_field ''Status: unanswered'' ''Answer'' ''yes'' = Inr ''Status: unanswered''"
proof -
  have n: "nl \<notin> set ''Answer''" "bslash \<notin> set ''Answer''" "bslash \<notin> set ''yes''" "nl \<notin> set ''yes''"
    by (simp_all add: nl_def bslash_def)
  from replace_field_local [OF n, of "''Status: unanswered'' @ [nl] @ ''Answer:''"]
  obtain b where b: "replace_field (''Status: unanswered'' @ [nl] @ ''Answer:'') ''Answer'' ''yes'' = Inr b"
    and l: "split_nl b = map (\<lambda>l. if prefix (''Answer'' @ '':'') l then ''Answer'' @ '': '' @ ''yes'' else l)
                     (split_nl (''Status: unanswered'' @ [nl] @ ''Answer:''))"
    by (elim exE conjE)
  have "join_nl (split_nl b) = ''Status: unanswered'' @ [nl] @ ''Answer: yes''"
    unfolding l by (simp add: nl_def split_nl.simps)
  then have first: "replace_field (''Status: unanswered'' @ [nl] @ ''Answer:'') ''Answer'' ''yes''
     = Inr (''Status: unanswered'' @ [nl] @ ''Answer: yes'')"
    using b by simp
  have absent: "\<not> has_field ''Status: unanswered'' ''Answer''"
    by code_simp
  from replace_field_local [OF n, of "''Status: unanswered''"]
  obtain c where c: "replace_field ''Status: unanswered'' ''Answer'' ''yes'' = Inr c"
    and same: "\<not> has_field ''Status: unanswered'' ''Answer'' \<longrightarrow> c = ''Status: unanswered''"
    by (elim exE conjE)
  have second: "replace_field ''Status: unanswered'' ''Answer'' ''yes'' = Inr ''Status: unanswered''"
    using c mp [OF same absent] by (simp only:)
  from first second show ?thesis
    by (rule conjI)
qed

text \<open>With two Status lines, both are rewritten, not a single one; and the Answer
  line of a fresh record, which has no space behind its colon and so does not begin with
  \<^verbatim>\<open>Answer: \<close>, is rewritten as well.\<close>

theorem replace_field_local_counterexample:
  "replace_field (''Status: a'' @ [nl] @ ''Status: b'') ''Status'' ''c''
     = Inr (''Status: c'' @ [nl] @ ''Status: c'')
   \<and> replace_field (''Status: unanswered'' @ [nl] @ ''Answer:'') ''Answer'' ''yes''
     = Inr (''Status: unanswered'' @ [nl] @ ''Answer: yes'')"
  by code_simp

text \<open>
  Claim C5 (idempotence of field replacement), as the code has it.  For a field name and
  a value free of newlines and backslashes, replacing twice gives what replacing once
  gives; and a replacement returns the block unchanged exactly when every line that
  begins with \<^verbatim>\<open>Field:\<close> already reads \<^verbatim>\<open>Field: value\<close>.
\<close>

theorem replace_field_idempotent:
  assumes "nl \<notin> set field" and "bslash \<notin> set field" and "bslash \<notin> set val" and "nl \<notin> set val"
  shows "ebind (replace_field block field val) (\<lambda>b. replace_field b field val)
       = replace_field block field val
     \<and> (replace_field block field val = Inr block
         \<longleftrightarrow> (\<forall>l \<in> set (split_nl block). prefix (field @ '':'') l \<longrightarrow> l = field @ '': '' @ val))"
proof -
  let ?g = "\<lambda>l. if prefix (field @ '':'') l then field @ '': '' @ val else l"
  obtain b where b: "replace_field block field val = Inr b"
    and l: "split_nl b = map ?g (split_nl block)"
    using replace_field_literal_lines [OF assms, of block] by blast
  have gg: "\<And>l. ?g (?g l) = ?g l"
    by simp
  have "replace_field b field val = Inr (join_nl (map ?g (split_nl b)))"
    by (rule replace_field_literal [OF assms(1,2,3)])
  also have "map ?g (split_nl b) = split_nl b"
    unfolding l using gg by (simp add: comp_def)
  finally have twice: "replace_field b field val = Inr b"
    by simp
  have "b = block \<longleftrightarrow> split_nl b = split_nl block"
    using join_split_nl [of b] join_split_nl [of block] by metis
  also have "\<dots> \<longleftrightarrow> map ?g (split_nl block) = map id (split_nl block)"
    by (simp add: l)
  also have "\<dots> \<longleftrightarrow> (\<forall>l \<in> set (split_nl block). ?g l = id l)"
    by (rule map_eq_conv)
  also have "\<dots> \<longleftrightarrow> (\<forall>l \<in> set (split_nl block). prefix (field @ '':'') l \<longrightarrow> l = field @ '': '' @ val)"
    by auto
  finally show ?thesis
    using b twice by (simp add: ebind_def)
qed

theorem replace_field_idempotent_witness:
  "replace_field (''Status: answered'' @ [nl] @ ''Answer:'') ''Status''
      (parse_field (''Status: answered'' @ [nl] @ ''Answer:'') ''Status'')
    = Inr (''Status: answered'' @ [nl] @ ''Answer:'')"
proof -
  have v: "parse_field (''Status: answered'' @ [nl] @ ''Answer:'') ''Status'' = ''answered''"
    by code_simp
  have n: "nl \<notin> set ''Status''" "bslash \<notin> set ''Status''" "bslash \<notin> set ''answered''"
    "nl \<notin> set ''answered''"
    by (simp_all add: nl_def bslash_def)
  have "\<forall>l \<in> set (split_nl (''Status: answered'' @ [nl] @ ''Answer:'')).
      prefix (''Status'' @ '':'') l \<longrightarrow> l = ''Status'' @ '': '' @ ''answered''"
    by (simp add: nl_def split_nl.simps)
  then show ?thesis
    using replace_field_idempotent [OF n, of "''Status: answered'' @ [nl] @ ''Answer:''"]
    by (simp only: v)
qed

text \<open>The Answer line of a fresh record has no space behind the colon; replacing the
  field with the value parsed from it adds one.\<close>

theorem replace_field_idempotent_counterexample:
  "replace_field ''Answer:'' ''Answer'' (parse_field ''Answer:'' ''Answer'') \<noteq> Inr ''Answer:''"
  by (simp add: replace_field_def has_field_def parse_field_def ebind_def cons_piece_def
      bslash_def nl_def expand_def sub_field.simps strip_def lstrip_def rstrip_def)

section \<open>Round trip of a report\<close>

declare replace_scan.simps [simp del]

lemma replace_scan_same_gen: "new = old \<Longrightarrow> replace_scan old new s = s"
proof (induction old new s rule: replace_scan.induct)
  case (1 old new s)
  show ?case
  proof (cases "s = [] \<or> old = []")
    case True
    then show ?thesis
      by (subst replace_scan.simps) simp
  next
    case False
    show ?thesis
    proof (cases "prefix old s")
      case True
      then have "old @ drop (length old) s = s"
        by (auto simp: prefix_def)
      moreover have "replace_scan old new (drop (length old) s) = drop (length old) s"
        using "1.IH"(1) "1.prems" False True by simp
      ultimately show ?thesis
        using False True "1.prems" by (subst replace_scan.simps) simp
    next
      case np: False
      have "replace_scan old new (tl s) = tl s"
        using "1.IH"(2) "1.prems" False np by simp
      then show ?thesis
        using False np by (subst replace_scan.simps) simp
    qed
  qed
qed

lemma replace_scan_same: "replace_scan old old s = s"
  by (simp add: replace_scan_same_gen)

lemma py_replace_same: "py_replace s old old = s"
proof (cases "old = []")
  case True
  have "concat (map (\<lambda>c. [c]) s) = s"
    by (induction s) auto
  with True show ?thesis by (simp add: py_replace_def)
next
  case False
  then show ?thesis by (simp add: py_replace_def replace_scan_same)
qed

lemma rewrite_unchanged_same: "rewrite_unchanged content entries = content"
proof -
  have "foldl (\<lambda>new_content e. py_replace new_content (entry_block e) (entry_block e)) c entries = c" for c
    by (induction entries arbitrary: c) (simp_all add: py_replace_same)
  then show ?thesis
    by (simp add: rewrite_unchanged_def)
qed

text \<open>
  Claim C7 (round trip of parse and rewrite).  Putting every parsed block back for
  itself returns the document (\<open>rewrite_unchanged_same\<close>), but the parse itself raises
  on a document with a second-level heading that has no colon on its own line: the
  identifier of the heading pattern runs over the line end up to the next colon, and the
  header line then has no \<^verbatim>\<open>": "\<close> to split at.
\<close>

theorem parse_raises_on_plain_heading:
  "parse_questions_from_report (''## Summary'' @ [nl] @ ''Status: ok'') = Inl ValueError"
  by code_simp

section \<open>Evidence application and the timestamp\<close>

text \<open>
  Claim C3 (Last Updated is refreshed with every change of status).  Applying evidence
  to the sample report turns its status from \<^verbatim>\<open>unanswered\<close> into \<^verbatim>\<open>partial\<close> and
  leaves the Last Updated line as it was; only \<^verbatim>\<open>cmd_record_answer\<close> writes that
  field (\<open>record_line\<close>).
\<close>

theorem evidence_keeps_last_updated:
  "(case cmd_apply_evidence (Some \<lparr> languages = [''.py''], infra = [], ci = [] \<rparr>) reports0 of
      (fs, res) \<Rightarrow> res = None \<and> fs ''security''
     = Some (''# Security'' @ [nl] @ [nl]
         @ ''## SEC-1: How do you test?'' @ [nl] @ ''Question: How do you test?'' @ [nl]
         @ ''Status: partial'' @ [nl] @ ''Confidence: n/a'' @ [nl] @ ''Answer:'' @ [nl]
         @ ''Evidence: languages=.py'' @ [nl]
         @ ''Human Questions: Please describe how your team addresses: How do you test?'' @ [nl]
         @ ''Kanbus Task: '' @ [nl]
         @ ''Last Updated: 2026-01-01'' @ [nl] @ [nl] @ [nl] @ ''> Attribution: AWS'' @ [nl]))
   \<and> parse_field report0 ''Status'' = ''unanswered''
   \<and> parse_field report0 ''Last Updated'' = ''2026-01-01''"
  by code_simp

section \<open>Identity resolution\<close>






section \<open>Cleaning and the heading substitutions\<close>



lemma clean_char_idem [simp]: "clean_char (clean_char c) = clean_char c"
  by (simp add: clean_char_def nbsp_def a_circ_def)

lemma clean_char_eq_iff:
  "k \<noteq> CHR '' '' \<Longrightarrow> clean_char c = k \<longleftrightarrow> c = k \<and> k \<noteq> nbsp \<and> k \<noteq> a_circ"
  by (auto simp: clean_char_def)








declare sub_heading_space.simps [simp del]

declare sub_heading_title.simps [simp del]








lemma takeWhile_colon [simp]:
  "CHR '':'' \<notin> set r \<Longrightarrow> takeWhile (\<lambda>c. c \<noteq> CHR '':'') (r @ CHR '':'' # x) = r"
  by (induction r) auto

lemma dropWhile_colon [simp]:
  "CHR '':'' \<notin> set r \<Longrightarrow> dropWhile (\<lambda>c. c \<noteq> CHR '':'') (r @ CHR '':'' # x) = CHR '':'' # x"
  by (induction r) auto












section \<open>Evidence application: the new text of a record\<close>


lemma set_lstrip: "set (lstrip s) \<subseteq> set s"
  by (auto simp: lstrip_def dest: set_dropWhileD)

lemma set_rstrip: "set (rstrip s) \<subseteq> set s"
  by (auto simp: rstrip_def dest: set_dropWhileD)

lemma set_strip: "set (strip s) \<subseteq> set s"
  using set_lstrip [of s] set_rstrip [of "lstrip s"] by (auto simp: strip_def)





lemma nl_notin_parse_field: "nl \<notin> set (parse_field block field)"
proof (cases "search_field (field @ '':'') True block")
  case None
  then show ?thesis by (simp add: parse_field_def)
next
  case (Some r)
  let ?v = "takeWhile (\<lambda>c. c \<noteq> nl) (dropWhile (\<lambda>c. c = CHR '' '' \<or> c = CHR 0x09) r)"
  have "nl \<notin> set ?v"
    by (auto dest: set_takeWhileD)
  then have "nl \<notin> set (strip ?v)"
    using set_strip [of ?v] by blast
  then show ?thesis
    using Some by (simp add: parse_field_def)
qed



















section \<open>Evidence application: a report with one record\<close>

declare scan_blocks.simps [simp del]















section \<open>Status reconciliation\<close>










text \<open>Outside the records described above: when the heading has an empty title and the
  record no question text, the substitution of line 566 takes the line end behind the
  heading as white space and joins the Status line to the heading.\<close>

lemma evidence_heading_takes_status_line:
  "(case cmd_apply_evidence (Some inventory_py)
           (only_security (''## Q-1: '' @ [nl] @ ''Status: unanswered'' @ [nl] @ ''Answer: yes'' @ [nl])) of
      (fs, res) \<Rightarrow> res = None \<and> fs ''security''
      = Some (''## Q-1: Status: answered'' @ [nl] @ ''Answer: yes'' @ [nl]))"
  by code_simp

section \<open>The prompt for a person\<close>






text \<open>Outside the records described above: a line \<^verbatim>\<open>##\<close> inside a record is taken
  by the heading substitution of lines 560 to 565 together with the next line up to its
  colon, so a note behind it is lost although the status is \<^verbatim>\<open>answered\<close>.\<close>

lemma evidence_heading_takes_note:
  "(case cmd_apply_evidence (Some inventory_py)
           (only_security (''## SEC-1: T'' @ [nl] @ ''Status: answered'' @ [nl] @ ''Answer: x'' @ [nl]
              @ ''##'' @ [nl] @ ''Human Questions: my own note'' @ [nl])) of
      (fs, res) \<Rightarrow> res = None \<and> fs ''security''
      = Some (''## SEC-1: T'' @ [nl] @ ''Status: answered'' @ [nl] @ ''Answer: x'' @ [nl]
              @ ''## SEC-1: T'' @ [nl]))"
  by code_simp

section \<open>Recording an answer: what is written\<close>

text \<open>The substitution of line 610 has no guard, and does the same as the field
  replacement when the answer is plain.\<close>

lemma answer_sub_literal:
  assumes "bslash \<notin> set answer_text"
  shows "ebind (parse_template (''Answer: '' @ answer_text))
           (\<lambda>tpl. Inr (sub_field ''Answer'' tpl True block))
       = replace_field block ''Answer'' answer_text"
proof -
  let ?g = "\<lambda>l. if prefix (''Answer'' @ '':'') l then ''Answer'' @ '': '' @ answer_text else l"
  have plain: "nl \<notin> set ''Answer''" "bslash \<notin> set ''Answer''"
    by (simp_all add: nl_def bslash_def)
  have "bslash \<notin> set (''Answer: '' @ answer_text)"
    using assms by (simp add: bslash_def)
  then have tpl: "parse_template (''Answer: '' @ answer_text) = Inr (map Lit (''Answer: '' @ answer_text))"
    by (rule parse_template_literal)
  have g: "line_sub ''Answer'' (map Lit (''Answer: '' @ answer_text)) = ?g"
    by (rule ext) (simp only: line_sub_def expand_literal, simp)
  have "sub_field ''Answer'' (map Lit (''Answer: '' @ answer_text)) True block
      = join_nl (map ?g (split_nl block))"
    using sub_field_lines [OF plain(1), of "map Lit (''Answer: '' @ answer_text)" block]
    by (simp only: g)
  then show ?thesis
    using replace_field_literal [OF plain assms, of block]
    by (simp only: tpl ebind_def sum.case)
qed

lemma record_line_compose:
  "(\<lambda>l. if prefix (''Last Updated'' @ '':'') l then ''Last Updated'' @ '': '' @ now else l)
     ((\<lambda>l. if prefix (''Answer'' @ '':'') l then ''Answer'' @ '': '' @ answer_text else l)
       ((\<lambda>l. if prefix (''Confidence'' @ '':'') l then ''Confidence'' @ '': '' @ confidence else l)
         ((\<lambda>l. if prefix (''Status'' @ '':'') l then ''Status'' @ '': '' @ status else l) l)))
   = record_line status confidence answer_text now l"
  by (simp add: record_line_def)

text \<open>
  Claim C4 (validation of status and confidence), as the code has it.  The recording
  checks neither value against its enumeration.  For every status, confidence, answer
  and timestamp free of newlines and backslashes, lines 607 to 612 return a block
  (there is no rejection) in which every Status line reads \<^verbatim>\<open>Status: \<close> and the status
  as given, every Confidence line the confidence as given, and likewise the Answer and
  Last Updated lines; all other lines are unchanged.
\<close>

theorem record_answer_block_lines:
  assumes "bslash \<notin> set status" and "nl \<notin> set status"
    and "bslash \<notin> set confidence" and "nl \<notin> set confidence"
    and "bslash \<notin> set answer_text" and "nl \<notin> set answer_text"
    and "bslash \<notin> set now" and "nl \<notin> set now"
  shows "\<exists>b. record_answer_block status confidence answer_text now block = Inr b
     \<and> split_nl b = map (record_line status confidence answer_text now) (split_nl block)"
proof -
  let ?g1 = "\<lambda>l. if prefix (''Status'' @ '':'') l then ''Status'' @ '': '' @ status else l"
  let ?g2 = "\<lambda>l. if prefix (''Confidence'' @ '':'') l then ''Confidence'' @ '': '' @ confidence else l"
  let ?g3 = "\<lambda>l. if prefix (''Answer'' @ '':'') l then ''Answer'' @ '': '' @ answer_text else l"
  let ?g4 = "\<lambda>l. if prefix (''Last Updated'' @ '':'') l then ''Last Updated'' @ '': '' @ now else l"
  have plain: "nl \<notin> set ''Status''" "bslash \<notin> set ''Status''"
    "nl \<notin> set ''Confidence''" "bslash \<notin> set ''Confidence''"
    "nl \<notin> set ''Answer''" "bslash \<notin> set ''Answer''"
    "nl \<notin> set ''Last Updated''" "bslash \<notin> set ''Last Updated''"
    by (simp_all add: nl_def bslash_def)
  from replace_field_literal_lines [OF plain(1,2) assms(1,2), of block]
  obtain b1 where b1: "replace_field block ''Status'' status = Inr b1"
    and l1: "split_nl b1 = map ?g1 (split_nl block)"
    by (elim exE conjE)
  from replace_field_literal_lines [OF plain(3,4) assms(3,4), of b1]
  obtain b2 where b2: "replace_field b1 ''Confidence'' confidence = Inr b2"
    and l2: "split_nl b2 = map ?g2 (split_nl b1)"
    by (elim exE conjE)
  from replace_field_literal_lines [OF plain(5,6) assms(5,6), of b2]
  obtain b3 where b3: "replace_field b2 ''Answer'' answer_text = Inr b3"
    and l3: "split_nl b3 = map ?g3 (split_nl b2)"
    by (elim exE conjE)
  from replace_field_literal_lines [OF plain(7,8) assms(7,8), of b3]
  obtain b4 where b4: "replace_field b3 ''Last Updated'' now = Inr b4"
    and l4: "split_nl b4 = map ?g4 (split_nl b3)"
    by (elim exE conjE)
  have "bslash \<notin> set (''Answer: '' @ answer_text)"
    using assms(5) by (simp add: bslash_def)
  then have tpl: "parse_template (''Answer: '' @ answer_text) = Inr (map Lit (''Answer: '' @ answer_text))"
    by (rule parse_template_literal)
  have "Inr (sub_field ''Answer'' (map Lit (''Answer: '' @ answer_text)) True b2) = Inr b3"
    using answer_sub_literal [OF assms(5), of b2] unfolding b3 tpl
    by (simp add: ebind_def)
  then have s3: "sub_field ''Answer'' (map Lit (''Answer: '' @ answer_text)) True b2 = b3"
    by (simp only: sum.inject)
  have res: "record_answer_block status confidence answer_text now block = Inr b4"
    unfolding record_answer_block_def b1 by (simp only: ebind_def sum.case b2 tpl s3 b4)
  have "split_nl b4 = map (\<lambda>l. ?g4 (?g3 (?g2 (?g1 l)))) (split_nl block)"
    unfolding l4 l3 l2 l1 by (simp only: map_map comp_def)
  then have "split_nl b4 = map (record_line status confidence answer_text now) (split_nl block)"
    by (simp only: record_line_compose)
  with res show ?thesis
    by blast
qed

theorem record_answer_block_lines_witness:
  "record_answer_block ''bogus'' ''certain'' ''We do Y'' ''2026-02-02'' block_rec
     = Inr (''## SEC-1: How do you test?'' @ [nl] @ ''Status: bogus'' @ [nl]
     @ ''Confidence: certain'' @ [nl] @ ''Answer: We do Y'' @ [nl] @ ''Last Updated: 2026-02-02'')"
proof -
  have plain: "bslash \<notin> set ''bogus''" "nl \<notin> set ''bogus''"
    "bslash \<notin> set ''certain''" "nl \<notin> set ''certain''"
    "bslash \<notin> set ''We do Y''" "nl \<notin> set ''We do Y''"
    "bslash \<notin> set ''2026-02-02''" "nl \<notin> set ''2026-02-02''"
    by (simp_all add: nl_def bslash_def)
  from record_answer_block_lines [OF plain, of block_rec]
  obtain b where b: "record_answer_block ''bogus'' ''certain'' ''We do Y'' ''2026-02-02'' block_rec = Inr b"
    and l: "split_nl b = map (record_line ''bogus'' ''certain'' ''We do Y'' ''2026-02-02'') (split_nl block_rec)"
    by (elim exE conjE)
  have "join_nl (map (record_line ''bogus'' ''certain'' ''We do Y'' ''2026-02-02'') (split_nl block_rec))
     = ''## SEC-1: How do you test?'' @ [nl] @ ''Status: bogus'' @ [nl]
     @ ''Confidence: certain'' @ [nl] @ ''Answer: We do Y'' @ [nl] @ ''Last Updated: 2026-02-02''"
    by code_simp
  then have "join_nl (split_nl b) = ''## SEC-1: How do you test?'' @ [nl] @ ''Status: bogus'' @ [nl]
     @ ''Confidence: certain'' @ [nl] @ ''Answer: We do Y'' @ [nl] @ ''Last Updated: 2026-02-02''"
    by (simp only: l)
  then have "b = ''## SEC-1: How do you test?'' @ [nl] @ ''Status: bogus'' @ [nl]
     @ ''Confidence: certain'' @ [nl] @ ''Answer: We do Y'' @ [nl] @ ''Last Updated: 2026-02-02''"
    by (simp only: join_split_nl)
  with b show ?thesis
    by (simp only:)
qed

text \<open>The command accepts a status and a confidence outside the enumerations and
  writes them into the report.\<close>

theorem record_answer_writes_any_status:
  "(case cmd_record_answer ''SEC-1'' ''bogus'' ''certain'' ''We do Y'' ''2026-02-02'' reports0 of
      (fs, res) \<Rightarrow> res = None \<and> fs ''security''
      = Some (''# Security'' @ [nl] @ [nl]
         @ ''## SEC-1: How do you test?'' @ [nl] @ ''Question: How do you test?'' @ [nl]
         @ ''Status: bogus'' @ [nl] @ ''Confidence: certain'' @ [nl] @ ''Answer: We do Y'' @ [nl]
         @ ''Evidence:'' @ [nl] @ ''Human Questions:'' @ [nl] @ ''Kanbus Task: '' @ [nl]
         @ ''Last Updated: 2026-02-02'' @ [nl] @ [nl] @ [nl] @ ''> Attribution: AWS'' @ [nl]))
   \<and> ''bogus'' \<notin> STATUS_VALUES \<and> ''certain'' \<notin> CONFIDENCE_VALUES"
  by code_simp

text \<open>The flag of the loop: it is set exactly by a matching entry.\<close>

lemma record_answer_entries_flag:
  "record_answer_entries question_id status confidence answer_text now (content, updated) es
     = Inr (content', updated')
   \<Longrightarrow> updated' = (updated \<or> (\<exists>e \<in> set es. entry_id e = question_id))"
proof (induction es arbitrary: content updated)
  case Nil
  then show ?case by simp
next
  case (Cons e es)
  show ?case
  proof (cases "entry_id e = question_id")
    case False
    with Cons show ?thesis by auto
  next
    case True
    with Cons.prems obtain block_new where
      "record_answer_entries question_id status confidence answer_text now
         (py_replace content (entry_block e) block_new, True) es = Inr (content', updated')"
      by (auto simp: ebind_def split: sum.splits)
    from Cons.IH [OF this] True show ?thesis by simp
  qed
qed

lemma record_answer_entries_no_match:
  "\<forall>e \<in> set es. entry_id e \<noteq> question_id \<Longrightarrow>
   record_answer_entries question_id status confidence answer_text now acc es = Inr acc"
  by (induction es) (cases acc, auto)+

lemma record_answer_pillars_no_match:
  assumes "\<forall>p \<in> set ps. \<forall>content. fs p = Some content \<longrightarrow>
     (\<exists>es. parse_questions_from_report content = Inr es
           \<and> (\<forall>e \<in> set es. entry_id e \<noteq> question_id))"
  shows "record_answer_pillars question_id status confidence answer_text now ps (fs, updated)
     = ((fs, updated), None)"
  using assms
proof (induction ps)
  case Nil
  show ?case by simp
next
  case (Cons p ps)
  show ?case
  proof (cases "fs p")
    case None
    with Cons show ?thesis by simp
  next
    case (Some content)
    with Cons.prems obtain es where es: "parse_questions_from_report content = Inr es"
      and no: "\<forall>e \<in> set es. entry_id e \<noteq> question_id"
      by auto
    have "record_answer_entries question_id status confidence answer_text now (content, updated) es
        = Inr (content, updated)"
      using no by (rule record_answer_entries_no_match)
    then show ?thesis
      using Some es Cons by (simp add: ebind_def)
  qed
qed

lemma record_answer_pillars_flag:
  assumes "distinct ps"
    and "record_answer_pillars question_id status confidence answer_text now ps (fs, updated)
     = ((fs', updated'), None)"
  shows "updated' = (updated \<or> (\<exists>p \<in> set ps. \<exists>content es. fs p = Some content
          \<and> parse_questions_from_report content = Inr es
          \<and> (\<exists>e \<in> set es. entry_id e = question_id)))"
  using assms
proof (induction ps arbitrary: fs updated)
  case Nil
  then show ?case by simp
next
  case (Cons p ps)
  show ?case
  proof (cases "fs p")
    case None
    with Cons.prems have "record_answer_pillars question_id status confidence answer_text now ps
        (fs, updated) = ((fs', updated'), None)"
      by simp
    from Cons.IH [OF _ this] Cons.prems(1) None show ?thesis
      by auto
  next
    case (Some content)
    from Cons.prems(2) Some obtain es new_content u where
      es: "parse_questions_from_report content = Inr es"
      and en: "record_answer_entries question_id status confidence answer_text now
          (content, updated) es = Inr (new_content, u)"
      and rest: "record_answer_pillars question_id status confidence answer_text now ps
          (if new_content \<noteq> content then fs(p \<mapsto> new_content) else fs, u)
          = ((fs', updated'), None)"
      by (auto simp: ebind_def split: sum.splits prod.splits)
    let ?fs = "if new_content \<noteq> content then fs(p \<mapsto> new_content) else fs"
    have u: "u = (updated \<or> (\<exists>e \<in> set es. entry_id e = question_id))"
      using en by (rule record_answer_entries_flag)
    have same: "\<And>q. q \<in> set ps \<Longrightarrow> ?fs q = fs q"
      using Cons.prems(1) by auto
    have "updated' = (u \<or> (\<exists>q \<in> set ps. \<exists>content es. ?fs q = Some content
          \<and> parse_questions_from_report content = Inr es
          \<and> (\<exists>e \<in> set es. entry_id e = question_id)))"
      using Cons.IH [OF _ rest] Cons.prems(1) by simp
    also have "(\<exists>q \<in> set ps. \<exists>content es. ?fs q = Some content
          \<and> parse_questions_from_report content = Inr es
          \<and> (\<exists>e \<in> set es. entry_id e = question_id))
        = (\<exists>q \<in> set ps. \<exists>content es. fs q = Some content
          \<and> parse_questions_from_report content = Inr es
          \<and> (\<exists>e \<in> set es. entry_id e = question_id))"
      using same by (metis (no_types, lifting))
    finally show ?thesis
      using u Some es by auto
  qed
qed

text \<open>The command reports a missing identifier when no record of any parsed report
  carries it, and then leaves the reports as they are; and it succeeds only when some
  record carries the identifier.\<close>

lemma record_answer_not_found:
  assumes "\<forall>p \<in> set PILLARS. \<forall>content. fs p = Some content \<longrightarrow>
     (\<exists>es. parse_questions_from_report content = Inr es
           \<and> (\<forall>e \<in> set es. entry_id e \<noteq> question_id))"
  shows "cmd_record_answer question_id status confidence raw_answer now fs
     = (fs, Some (WAIError ''Question ID not found in reports''))"
  using record_answer_pillars_no_match [OF assms, of status confidence _ now False]
  by (simp add: cmd_record_answer_def Let_def)

lemma record_answer_success_has_match:
  assumes "snd (cmd_record_answer question_id status confidence raw_answer now fs) = None"
  shows "\<exists>p \<in> set PILLARS. \<exists>content es. fs p = Some content
          \<and> parse_questions_from_report content = Inr es
          \<and> (\<exists>e \<in> set es. entry_id e = question_id)"
proof -
  let ?a = "strip (collapse_ws raw_answer)"
  obtain fs' u r where p: "record_answer_pillars question_id status confidence ?a now PILLARS (fs, False)
      = ((fs', u), r)"
    by (metis surj_pair)
  with assms have r: "r = None" and u: "u"
    by (auto simp: cmd_record_answer_def Let_def split: option.splits if_splits)
  have "distinct PILLARS"
    by (simp add: PILLARS_def)
  from record_answer_pillars_flag [OF this p [unfolded r]] u show ?thesis
    by simp
qed

text \<open>
  Claim C10 (every matching record is updated; the command fails exactly when no record
  carries the identifier).  The loop has no early exit, and the missing-identifier error
  is as the claim says (\<open>record_answer_not_found\<close>, \<open>record_answer_success_has_match\<close>).
  But the sample report holds the record \<^verbatim>\<open>SEC-1\<close>, and the command still fails on
  it when the answer file holds a backslash followed by a letter: the answer is passed
  to \<^verbatim>\<open>re.sub\<close> as a replacement template, and \<^verbatim>\<open>\d\<close> is not an escape the
  template compiler knows.  The report is left as it was.
\<close>

theorem record_answer_raises_on_backslash:
  "map_sum id (map entry_id) (parse_questions_from_report report0) = Inr [''SEC-1'']
   \<and> (case cmd_record_answer ''SEC-1'' ''answered'' ''high''
            (''Scripts live in C:'' @ [bslash] @ ''deploy'') ''2026-02-02'' reports0 of
         (fs, res) \<Rightarrow> res = Some TemplateError \<and> fs ''security'' = Some report0)"
  by code_simp

section \<open>Tracker sync: a failed call ends the run\<close>

lemma stops_same: "list_all tolerated log \<Longrightarrow> stops_at_failure (log, res)"
  by (cases log rule: rev_cases) (auto simp: stops_at_failure_def)

lemma stops_None: "stops_at_failure (log, None) \<Longrightarrow> list_all tolerated log"
  by (auto simp: stops_at_failure_def)

lemma stops_comment:
  assumes "list_all tolerated log"
  shows "stops_at_failure (kanbus_comment tr log issue text)"
  using assms
  by (auto simp: stops_at_failure_def kanbus_comment_def run_def Let_def tolerated_def call_error_def)

lemma stops_update:
  assumes "list_all tolerated log"
  shows "stops_at_failure (kanbus_update_status tr log issue status)"
  using assms
  by (auto simp: stops_at_failure_def kanbus_update_status_def run_def Let_def tolerated_def
      call_error_def is_update_def)

lemma resolve_given_log:
  "fst (resolve_full_id tr decode log short_id title parent (Some given)) = log"
  by (simp add: resolve_full_id_def)

lemma stops_entry:
  assumes "list_all tolerated log"
  shows "stops_at_failure (sync_entry tr decode km issues log e)"
proof -
  have r: "\<And>s. fst (resolve_full_id tr decode log s [] [] (Some issues)) = log"
    by (rule resolve_given_log)
  show ?thesis
  proof (cases "km_tasks km (entry_id e)")
    case None
    then show ?thesis
      using assms by (simp add: sync_entry_def stops_same)
  next
    case (Some short)
    show ?thesis
    proof (cases "short = []")
      case True
      then show ?thesis
        using assms Some by (simp add: sync_entry_def stops_same)
    next
      case False
      obtain log0 res0 where res: "resolve_full_id tr decode log short [] [] (Some issues) = (log0, res0)"
        by (cases "resolve_full_id tr decode log short [] [] (Some issues)")
      with r [of short] have log0: "log0 = log" by simp
      show ?thesis
      proof (cases res0)
        case (Inl err)
        then show ?thesis
          using assms Some False res log0 by (simp add: sync_entry_def stops_same)
      next
        case (Inr task_id)
        let ?answer = "parse_field (entry_block e) ''Answer''"
        obtain log1 r1 where c: "(if ?answer \<noteq> []
                        then kanbus_comment tr log task_id (''Answer:'' @ [nl] @ ?answer)
                        else (log, None)) = (log1, r1)"
          by (cases "(if ?answer \<noteq> []
                        then kanbus_comment tr log task_id (''Answer:'' @ [nl] @ ?answer)
                        else (log, None))")
        have s1: "stops_at_failure (log1, r1)"
          using c assms stops_comment [OF assms, of tr task_id "''Answer:'' @ [nl] @ ?answer"]
          by (auto simp: stops_same split: if_splits)
        have unfold: "sync_entry tr decode km issues log e =
           (case r1 of Some err \<Rightarrow> (log1, Some err)
            | None \<Rightarrow>
                if entry_status e = ''answered''
                  then kanbus_update_status tr log1 task_id ''closed''
                else if entry_status e = ''needs_human''
                  then kanbus_update_status tr log1 task_id ''blocked''
                else (log1, None))"
          using Some False res log0 Inr c by (simp add: sync_entry_def Let_def)
        show ?thesis
        proof (cases r1)
          case None
          then have "list_all tolerated log1"
            using s1 by (simp add: stops_None)
          then show ?thesis
            unfolding unfold using None by (simp add: stops_update stops_same)
        next
          case (Some err)
          then show ?thesis
            unfolding unfold using s1 by simp
        qed
      qed
    qed
  qed
qed

lemma stops_entries:
  "list_all tolerated log \<Longrightarrow> stops_at_failure (sync_entries tr decode km issues log es)"
proof (induction es arbitrary: log)
  case Nil
  then show ?case by (simp add: stops_same)
next
  case (Cons e es)
  obtain log' r where s: "sync_entry tr decode km issues log e = (log', r)"
    by (cases "sync_entry tr decode km issues log e")
  have st: "stops_at_failure (log', r)"
    using stops_entry [OF Cons.prems, of tr decode km issues e] s by simp
  show ?case
  proof (cases r)
    case None
    then have "list_all tolerated log'"
      using st by (simp add: stops_None)
    then show ?thesis
      using Cons.IH s None by simp
  next
    case (Some err)
    then show ?thesis
      using st s by simp
  qed
qed

lemma stops_pillars:
  "list_all tolerated log \<Longrightarrow> stops_at_failure (sync_pillars tr decode km issues fs log ps)"
proof (induction ps arbitrary: log)
  case Nil
  then show ?case by (simp add: stops_same)
next
  case (Cons p ps)
  show ?case
  proof (cases "fs p")
    case None
    then show ?thesis using Cons by simp
  next
    case (Some content)
    show ?thesis
    proof (cases "parse_questions_from_report content")
      case (Inl err)
      then show ?thesis using Some Cons.prems by (simp add: stops_same)
    next
      case (Inr entries)
      obtain log' r where s: "sync_entries tr decode km issues log entries = (log', r)"
        by (cases "sync_entries tr decode km issues log entries")
      have st: "stops_at_failure (log', r)"
        using stops_entries [OF Cons.prems, of tr decode km issues entries] s by simp
      show ?thesis
      proof (cases r)
        case None
        then have "list_all tolerated log'"
          using st by (simp add: stops_None)
        then show ?thesis
          using Cons.IH s None Some Inr by simp
      next
        case Some2: (Some err)
        then show ?thesis
          using st s Some Inr by simp
      qed
    qed
  qed
qed

lemma stops_epics:
  "list_all tolerated log \<Longrightarrow> stops_at_failure (sync_epics tr decode issues fs log eps)"
proof (induction eps arbitrary: log)
  case Nil
  then show ?case by (simp add: stops_same)
next
  case (Cons ep eps)
  obtain pillar short where ep: "ep = (pillar, short)"
    by (cases ep)
  obtain log0 res0 where res: "resolve_full_id tr decode log short [] [] (Some issues) = (log0, res0)"
    by (cases "resolve_full_id tr decode log short [] [] (Some issues)")
  with resolve_given_log [of tr decode log short "[]" "[]" issues] have log0: "log0 = log"
    by simp
  show ?case
  proof (cases res0)
    case (Inl err)
    then show ?thesis
      using ep res log0 Cons.prems by (simp add: stops_same)
  next
    case (Inr epic_id)
    show ?thesis
    proof (cases "fs pillar")
      case None
      then show ?thesis
        using ep res log0 Inr Cons by simp
    next
      case (Some content)
      show ?thesis
      proof (cases "parse_questions_from_report content")
        case Inl2: (Inl err)
        then show ?thesis
          using ep res log0 Inr Some Cons.prems by (simp add: stops_same)
      next
        case Inr2: (Inr entries)
        show ?thesis
        proof (cases "list_all (\<lambda>e. entry_status e = ''answered'') entries")
          case False
          then show ?thesis
            using ep res log0 Inr Some Inr2 Cons by simp
        next
          case True
          obtain log' r where u: "kanbus_update_status tr log epic_id ''closed'' = (log', r)"
            by (cases "kanbus_update_status tr log epic_id ''closed''")
          have st: "stops_at_failure (log', r)"
            using stops_update [OF Cons.prems, of tr epic_id "''closed''"] u by simp
          show ?thesis
          proof (cases r)
            case None
            then have "list_all tolerated log'"
              using st by (simp add: stops_None)
            then show ?thesis
              using ep res log0 Inr Some Inr2 True u None Cons.IH by simp
          next
            case Some3: (Some err)
            then show ?thesis
              using ep res log0 Inr Some Inr2 True u st by simp
          qed
        qed
      qed
    qed
  qed
qed

text \<open>
  Claim C2 (a failure for one record does not abort the sync), as the code has it.  No
  call of the loop is guarded: a comment that fails, or a status update that fails
  without \<^verbatim>\<open>no updates requested\<close> in its message, raises out of the command.  So in
  the log of every run each call but the last is tolerated, and when the last call is
  not, the run has ended with the exception of that call; a status update that fails
  with \<^verbatim>\<open>no updates requested\<close> is tolerated and the run goes on.
\<close>

theorem sync_stops_at_failure:
  assumes "cmd_sync_kanbus tr decode km fs = (log, res)"
  shows "list_all tolerated (butlast log)
     \<and> (\<not> list_all tolerated log \<longrightarrow> res = Some (call_error (last log)))"
proof -
  obtain log0 r0 where r: "run tr [] snapshot_cmd = (log0, r0)"
    by (cases "run tr [] snapshot_cmd")
  then have g0: "list_all tolerated log0"
    by (auto simp: run_def Let_def tolerated_def)
  let ?issues = "case r0 of Inl err \<Rightarrow> []
                 | Inr out \<Rightarrow> (case decode out of None \<Rightarrow> [] | Some fetched \<Rightarrow> fetched)"
  obtain log1 r1 where p: "sync_pillars tr decode km ?issues fs log0 PILLARS = (log1, r1)"
    by (cases "sync_pillars tr decode km ?issues fs log0 PILLARS")
  have st: "stops_at_failure (log1, r1)"
    using stops_pillars [OF g0, of tr decode km ?issues fs PILLARS] p by simp
  have "stops_at_failure (cmd_sync_kanbus tr decode km fs)"
  proof (cases r1)
    case None
    then have "list_all tolerated log1"
      using st by (simp add: stops_None)
    then have "stops_at_failure (sync_epics tr decode ?issues fs log1 (km_epics km))"
      by (rule stops_epics)
    then show ?thesis
      using r p None by (simp add: cmd_sync_kanbus_def Let_def)
  next
    case (Some err)
    then show ?thesis
      using r p st by (simp add: cmd_sync_kanbus_def Let_def)
  qed
  then show ?thesis
    using assms by (simp add: stops_at_failure_def)
qed

theorem sync_stops_at_failure_witness:
  "cmd_sync_kanbus tracker_t1_closed decode0 km0 reports2 = (log_closed, None)
   \<and> list_all tolerated (butlast log_closed)
   \<and> cmd_sync_kanbus tracker_t1_down decode0 km0 reports2
       = (log_down, Some (WAIError ''tracker unreachable''))
   \<and> list_all tolerated (butlast log_down)
   \<and> \<not> list_all tolerated log_down
   \<and> Some (WAIError ''tracker unreachable'') = Some (call_error (last log_down))"
proof -
  have run: "cmd_sync_kanbus tracker_t1_closed decode0 km0 reports2 = (log_closed, None)"
    by code_simp
  have down: "cmd_sync_kanbus tracker_t1_down decode0 km0 reports2
       = (log_down, Some (WAIError ''tracker unreachable''))"
    by code_simp
  have failed: "\<not> list_all tolerated log_down"
    by code_simp
  note ok = conjunct1 [OF sync_stops_at_failure [OF run]]
  note before = conjunct1 [OF sync_stops_at_failure [OF down]]
  note last = mp [OF conjunct2 [OF sync_stops_at_failure [OF down]] failed]
  show ?thesis
    by (intro conjI) (rule run ok down before failed last)+
qed

text \<open>The tracker fails for the task of the first record only; the run ends there, and
  no command is issued for the second record or for the epic.\<close>

theorem sync_aborts_on_first_failure:
  "cmd_sync_kanbus tracker_t1_down decode0 km0 reports2
     = ([(snapshot_cmd, proc_ok),
         ([''kanbus'', ''comment'', ''kanbus-t1-1-2-3-4'', ''Answer:'' @ [nl] @ ''We do X''], proc_down)],
        Some (WAIError ''tracker unreachable''))"
  by code_simp

end
